theory Spec2Isabelle
  imports Complex_Main "HOL-Library.Multiset"
begin

section \<open>Outcomes of a call\<close>

text \<open>
  Every failure of \<^verbatim>\<open>model.cpp\<close> is a \<^verbatim>\<open>throw std::runtime_error(message)\<close>; the
  message is all that tells the errors apart, so it is kept as it is built. Indexing a
  \<^verbatim>\<open>std::vector\<close> out of range with \<^verbatim>\<open>operator[]\<close> throws nothing: it is undefined
  behaviour, kept as an outcome of its own so that it is never taken for a raised error
  nor for a result.
\<close>

datatype 'a outcome = Returns 'a | Throws string | Undefined

definition andThen :: "'a outcome \<Rightarrow> ('a \<Rightarrow> 'b outcome) \<Rightarrow> 'b outcome" where
  "andThen r f = (case r of Returns x \<Rightarrow> f x | Throws e \<Rightarrow> Throws e | Undefined \<Rightarrow> Undefined)"

section \<open>Printing numbers\<close>

text \<open>What \<^verbatim>\<open>stream << n\<close> writes for an unsigned and for a signed integer: decimal digits.\<close>

definition digit_char :: "nat \<Rightarrow> char" where
  "digit_char d = ''0123456789'' ! d"

fun show_nat :: "nat \<Rightarrow> string" where
  "show_nat n = (if n < 10 then [digit_char n] else show_nat (n div 10) @ [digit_char (n mod 10)])"

declare show_nat.simps [simp del]

definition show_int :: "int \<Rightarrow> string" where
  "show_int i = (if i < 0 then CHR ''-'' # show_nat (nat (- i)) else show_nat (nat i))"

section \<open>Data model\<close>

text \<open>
  Modelled from the spec: the classes \<^verbatim>\<open>Variable\<close>, \<^verbatim>\<open>SegmentationHypothesis\<close>,
  \<^verbatim>\<open>LinkingHypothesis\<close>, \<^verbatim>\<open>ExclusionConstraint\<close> and the declaration of \<^verbatim>\<open>Model\<close>
  (\<^verbatim>\<open>model.h\<close>) are not among the sources; the records below hold the fields (named
  without the members' trailing underscore) that
  \<^verbatim>\<open>model.cpp\<close> reads through their accessors. A Variable is a feature vector and the
  id of its optimizer variable, \<open>-1\<close> while it has none (the sentinel \<^verbatim>\<open>model.cpp\<close>
  compares with). Feature values are doubles; only their number is ever read here.
  A \<^verbatim>\<open>Solution\<close> is a \<^verbatim>\<open>std::vector\<close> of unsigned labels indexed by optimizer id.
  The two \<^verbatim>\<open>std::map\<close>s are association lists in iteration (ascending key) order;
  a link is filed under its key \<open>(source id, destination id)\<close>.
  Feature counts are C++ \<^verbatim>\<open>int\<close>s; they are lengths of vectors held in memory, far from
  the 32-bit range, and are modelled as unbounded integers.
\<close>

type_synonym FeatureVector = "real list"

type_synonym Solution = "nat list"

record Variable =
  features :: FeatureVector
  openGMVariableId :: int

definition getNumFeatures :: "Variable \<Rightarrow> int" where
  "getNumFeatures v = int (length (features v))"

definition getOpenGMVariableId :: "Variable \<Rightarrow> int" where
  "getOpenGMVariableId v = openGMVariableId v"

record SegmentationHypothesis =
  detection :: Variable
  division :: Variable
  appearance :: Variable
  disappearance :: Variable

record LinkingHypothesis =
  variable :: Variable

type_synonym ExclusionConstraint = "int list"

record Model =
  segmentationHypotheses :: "(int \<times> SegmentationHypothesis) list"
  linkingHypotheses :: "((int \<times> int) \<times> LinkingHypothesis) list"
  exclusionConstraints :: "ExclusionConstraint list"
  numDetFeatures :: int
  numDivFeatures :: int
  numAppFeatures :: int
  numDisFeatures :: int
  numLinkFeatures :: int
  numberOfVariables :: nat

section \<open>Model::computeNumWeights\<close>

text \<open>The lambda \<^verbatim>\<open>checkNumFeatures\<close>; the reference parameter is returned.\<close>

definition checkNumFeatures :: "Variable \<Rightarrow> int \<Rightarrow> string \<Rightarrow> int outcome" where
  "checkNumFeatures var previousNumFeats name =
     (if previousNumFeats < 0 \<and> getNumFeatures var > 0 then Returns (getNumFeatures var)
      else if getNumFeatures var > 0 \<and> getNumFeatures var \<noteq> previousNumFeats
           then Throws (name @ '' do not have the same number of features!'')
           else Returns previousNumFeats)"

text \<open>The loop over \<^verbatim>\<open>segmentationHypotheses_\<close>; the state is
  the four running counts.\<close>

fun scanSegmentations ::
  "(int \<times> SegmentationHypothesis) list \<Rightarrow> int \<times> int \<times> int \<times> int \<Rightarrow> (int \<times> int \<times> int \<times> int) outcome" where
  "scanSegmentations [] st = Returns st"
| "scanSegmentations ((i, h) # rest) (numDet, numDiv, numApp, numDis) =
     andThen (checkNumFeatures (detection h) numDet ''Detections'') (\<lambda>numDet'.
     andThen (checkNumFeatures (division h) numDiv ''Divisions'') (\<lambda>numDiv'.
     andThen (checkNumFeatures (appearance h) numApp ''Appearances'') (\<lambda>numApp'.
     andThen (checkNumFeatures (disappearance h) numDis ''Disappearances'') (\<lambda>numDis'.
       scanSegmentations rest (numDet', numDiv', numApp', numDis')))))"

text \<open>The loop over \<^verbatim>\<open>linkingHypotheses_\<close>; the state is the running count.\<close>

fun scanLinks :: "((int \<times> int) \<times> LinkingHypothesis) list \<Rightarrow> int \<Rightarrow> int outcome" where
  "scanLinks [] numLink = Returns numLink"
| "scanLinks ((k, l) # rest) numLink =
     (if numLink < 0 then scanLinks rest (getNumFeatures (variable l))
      else if getNumFeatures (variable l) \<noteq> numLink
           then Throws (''Links do not have the same number of features!'')
           else scanLinks rest numLink)"

text \<open>The function returns the number of weights and leaves the five counts in the
  model's fields.\<close>

definition computeNumWeights :: "Model \<Rightarrow> (nat \<times> Model) outcome" where
  "computeNumWeights m =
     andThen (scanSegmentations (segmentationHypotheses m) (-1, -1, -1, -1))
       (\<lambda>(numDet, numDiv, numApp, numDis).
     andThen (scanLinks (linkingHypotheses m) (-1)) (\<lambda>numLink.
       let m' = m\<lparr> numDetFeatures := max 0 numDet,
                   numDivFeatures := max 0 numDiv,
                   numAppFeatures := max 0 numApp,
                   numDisFeatures := max 0 numDis,
                   numLinkFeatures := max 0 numLink \<rparr>
       in Returns (nat (2 * (numDetFeatures m' + numDivFeatures m' + numLinkFeatures m'
                              + numAppFeatures m' + numDisFeatures m')), m')))"

section \<open>Model::getWeightDescriptions\<close>

text \<open>The lambda \<^verbatim>\<open>addVariableWeightDescriptions\<close>: the strings it appends.\<close>

definition addVariableWeightDescriptions :: "nat \<Rightarrow> string \<Rightarrow> string list" where
  "addVariableWeightDescriptions numFeatures name =
     concat (map (\<lambda>state. map (\<lambda>f. name @ '' = '' @ show_nat state @ '' - feature '' @ show_nat f)
                               [0 ..< numFeatures]) [0 ..< 2])"

definition getWeightDescriptions :: "Model \<Rightarrow> (string list \<times> Model) outcome" where
  "getWeightDescriptions m =
     andThen (computeNumWeights m) (\<lambda>(n, m').
       Returns (addVariableWeightDescriptions (nat (numDetFeatures m')) ''Detection''
              @ addVariableWeightDescriptions (nat (numDivFeatures m')) ''Division''
              @ addVariableWeightDescriptions (nat (numAppFeatures m')) ''Appearance''
              @ addVariableWeightDescriptions (nat (numDisFeatures m')) ''Disappearance''
              @ addVariableWeightDescriptions (nat (numLinkFeatures m')) ''Link'', m'))"

section \<open>Model::initializeOpenGMModel: the weight-index layout\<close>

text \<open>
  The five index vectors that \<^verbatim>\<open>initializeOpenGMModel\<close> fills with \<^verbatim>\<open>std::iota\<close> and hands
  to the hypotheses, in the order \<open>(link, detection, division, appearance, disappearance)\<close>.
  The calls that register the hypotheses with the optimizer are not among the sources.
\<close>

definition weightIds :: "Model \<Rightarrow> (nat list \<times> nat list \<times> nat list \<times> nat list \<times> nat list) outcome" where
  "weightIds m =
     andThen (computeNumWeights m) (\<lambda>(n, m').
       let numLinkWeights = 2 * nat (numLinkFeatures m');
           numDetWeights = 2 * nat (numDetFeatures m');
           numDivWeights = 2 * nat (numDivFeatures m');
           numAppWeights = 2 * nat (numAppFeatures m');
           numDisWeights = 2 * nat (numDisFeatures m');
           linkWeightIds = [0 ..< numLinkWeights];
           detWeightIds = [numLinkWeights ..< numLinkWeights + numDetWeights];
           divWeightIds = [numLinkWeights + numDetWeights ..< numLinkWeights + numDetWeights + numDivWeights];
           appWeightIds = [numLinkWeights + numDetWeights + numDivWeights
                            ..< numLinkWeights + numDetWeights + numDivWeights + numAppWeights];
           disWeightIds = [numLinkWeights + numDetWeights + numDivWeights + numAppWeights
                            ..< numLinkWeights + numDetWeights + numDivWeights + numAppWeights + numDisWeights]
       in Returns (linkWeightIds, detWeightIds, divWeightIds, appWeightIds, disWeightIds))"

section \<open>Model::readGTfromJson\<close>

text \<open>
  \<^verbatim>\<open>solution[id]\<close> with an \<^verbatim>\<open>int\<close> id: the id is converted to \<^verbatim>\<open>size_t\<close>, so a negative
  id (the sentinel \<open>-1\<close>) is an index beyond every vector. Reading and writing out of
  range are undefined behaviour.
\<close>

definition solutionAt :: "Solution \<Rightarrow> int \<Rightarrow> nat outcome" where
  "solutionAt sol i = (if 0 \<le> i \<and> nat i < length sol then Returns (sol ! nat i) else Undefined)"

definition solutionAssign :: "Solution \<Rightarrow> int \<Rightarrow> nat \<Rightarrow> Solution outcome" where
  "solutionAssign sol i v = (if 0 \<le> i \<and> nat i < length sol then Returns (sol[nat i := v]) else Undefined)"

text \<open>
  Modelled from the spec: a default-constructed hypothesis (the class is not among the
  sources) has Variables without features and without optimizer id.
  \<^verbatim>\<open>segmentationHypotheses_[id]\<close> is \<^verbatim>\<open>std::map::operator[]\<close>: for an unknown id it
  inserts and returns a default-constructed hypothesis. Both uses below index the solution
  with that hypothesis's detection id at once, which is \<open>-1\<close>, so the inserted entry is
  never seen by later code and the map is not threaded through.
\<close>

definition defaultVariable :: Variable where
  "defaultVariable = \<lparr> features = [], openGMVariableId = -1 \<rparr>"

definition defaultSegmentationHypothesis :: SegmentationHypothesis where
  "defaultSegmentationHypothesis =
     \<lparr> detection = defaultVariable, division = defaultVariable,
       appearance = defaultVariable, disappearance = defaultVariable \<rparr>"

definition segmentationAt :: "Model \<Rightarrow> int \<Rightarrow> SegmentationHypothesis" where
  "segmentationAt m i =
     (case map_of (segmentationHypotheses m) i of
        Some h \<Rightarrow> h
      | None \<Rightarrow> defaultSegmentationHypothesis)"

text \<open>An entry of \<^verbatim>\<open>linkResults\<close> in the ground-truth file.\<close>

record LinkResult =
  src :: int
  dest :: int
  val :: bool

definition cannotFindLink :: "int \<Rightarrow> int \<Rightarrow> string" where
  "cannotFindLink s d = ''Cannot find link to annotate: '' @ show_int s @ '' to '' @ show_int d"

definition noAppearanceFeatures :: "int \<Rightarrow> string" where
  "noAppearanceFeatures i =
     ''Segmentation Hypothesis: '' @ show_int i
       @ '' - GT contains appearing variable that has no appearance features set!''"

definition noDisappearanceFeatures :: "int \<Rightarrow> string" where
  "noDisappearanceFeatures i =
     ''Segmentation Hypothesis: '' @ show_int i
       @ '' - GT contains disappearing variable that has no disappearance features set!''"

text \<open>The body of the first loop for one entry (lines 239 to 266).\<close>

definition markSource :: "Model \<Rightarrow> LinkResult \<Rightarrow> Solution \<Rightarrow> Solution outcome" where
  "markSource m a solution =
     (if val a then
        (case map_of (linkingHypotheses m) (src a, dest a) of
           None \<Rightarrow> Throws (cannotFindLink (src a) (dest a))
         | Some hyp \<Rightarrow>
             andThen (solutionAssign solution (getOpenGMVariableId (variable hyp)) 1) (\<lambda>solution.
             andThen (solutionAt solution (getOpenGMVariableId (detection (segmentationAt m (src a))))) (\<lambda>d.
               if d = 1
               then solutionAssign solution (getOpenGMVariableId (division (segmentationAt m (src a)))) 1
               else
                 andThen (solutionAt solution (getOpenGMVariableId (detection (segmentationAt m (src a))))) (\<lambda>d'.
                   if d' = 1 then Throws ''A source node has been used more than once!''
                   else solutionAssign solution (getOpenGMVariableId (detection (segmentationAt m (src a)))) 1))))
      else Returns solution)"

fun markSources :: "Model \<Rightarrow> LinkResult list \<Rightarrow> Solution \<Rightarrow> Solution outcome" where
  "markSources m [] solution = Returns solution"
| "markSources m (a # rest) solution = andThen (markSource m a solution) (markSources m rest)"

text \<open>The second loop (lines 270 to 281).\<close>

definition markTarget :: "Model \<Rightarrow> LinkResult \<Rightarrow> Solution \<Rightarrow> Solution outcome" where
  "markTarget m a solution =
     (if val a
      then solutionAssign solution (getOpenGMVariableId (detection (segmentationAt m (dest a)))) 1
      else Returns solution)"

fun markTargets :: "Model \<Rightarrow> LinkResult list \<Rightarrow> Solution \<Rightarrow> Solution outcome" where
  "markTargets m [] solution = Returns solution"
| "markTargets m (a # rest) solution = andThen (markTarget m a solution) (markTargets m rest)"

text \<open>
  Modelled from the spec: \<^verbatim>\<open>SegmentationHypothesis::getNumActiveIncomingLinks\<close> and
  \<^verbatim>\<open>getNumActiveOutgoingLinks\<close> are not among the sources. They count the active link
  Variables among the links that have the hypothesis's id as destination, respectively as
  source; a link Variable is active when its label in the solution is positive, the test
  \<^verbatim>\<open>model.cpp\<close> applies to labels.
\<close>

fun countActive :: "LinkingHypothesis list \<Rightarrow> Solution \<Rightarrow> nat outcome" where
  "countActive [] sol = Returns 0"
| "countActive (l # ls) sol =
     andThen (solutionAt sol (getOpenGMVariableId (variable l))) (\<lambda>v.
     andThen (countActive ls sol) (\<lambda>n. Returns (if v > 0 then Suc n else n)))"

definition incomingLinks :: "Model \<Rightarrow> int \<Rightarrow> LinkingHypothesis list" where
  "incomingLinks m i = map snd (filter (\<lambda>(k, l). snd k = i) (linkingHypotheses m))"

definition outgoingLinks :: "Model \<Rightarrow> int \<Rightarrow> LinkingHypothesis list" where
  "outgoingLinks m i = map snd (filter (\<lambda>(k, l). fst k = i) (linkingHypotheses m))"

definition getNumActiveIncomingLinks :: "Model \<Rightarrow> int \<Rightarrow> Solution \<Rightarrow> nat outcome" where
  "getNumActiveIncomingLinks m i sol = countActive (incomingLinks m i) sol"

definition getNumActiveOutgoingLinks :: "Model \<Rightarrow> int \<Rightarrow> Solution \<Rightarrow> nat outcome" where
  "getNumActiveOutgoingLinks m i sol = countActive (outgoingLinks m i) sol"

text \<open>The body of the third loop for one hypothesis (lines 285 to 318).\<close>

definition closeAppearance :: "Model \<Rightarrow> int \<Rightarrow> SegmentationHypothesis \<Rightarrow> Solution \<Rightarrow> Solution outcome" where
  "closeAppearance m i h solution =
     andThen (getNumActiveIncomingLinks m i solution) (\<lambda>n.
       if n = 0 then
         (if getOpenGMVariableId (appearance h) = -1 then Throws (noAppearanceFeatures i)
          else solutionAssign solution (getOpenGMVariableId (appearance h)) 1)
       else Returns solution)"

definition closeDisappearance :: "Model \<Rightarrow> int \<Rightarrow> SegmentationHypothesis \<Rightarrow> Solution \<Rightarrow> Solution outcome" where
  "closeDisappearance m i h solution =
     andThen (getNumActiveOutgoingLinks m i solution) (\<lambda>n.
       if n = 0 then
         (if getOpenGMVariableId (disappearance h) = -1 then Throws (noDisappearanceFeatures i)
          else solutionAssign solution (getOpenGMVariableId (disappearance h)) 1)
       else Returns solution)"

definition closeHypothesis :: "Model \<Rightarrow> int \<Rightarrow> SegmentationHypothesis \<Rightarrow> Solution \<Rightarrow> Solution outcome" where
  "closeHypothesis m i h solution =
     andThen (solutionAt solution (getOpenGMVariableId (detection h))) (\<lambda>detValue.
       if detValue > 0
       then andThen (closeAppearance m i h solution) (closeDisappearance m i h)
       else Returns solution)"

fun closeTracks :: "Model \<Rightarrow> (int \<times> SegmentationHypothesis) list \<Rightarrow> Solution \<Rightarrow> Solution outcome" where
  "closeTracks m [] solution = Returns solution"
| "closeTracks m ((i, h) # rest) solution = andThen (closeHypothesis m i h solution) (closeTracks m rest)"

text \<open>The first two loops, and the whole function on the parsed \<^verbatim>\<open>linkResults\<close> (reading
  the file is left out). The solution starts with one label 0 per optimizer variable.\<close>

definition markLinks :: "Model \<Rightarrow> LinkResult list \<Rightarrow> Solution outcome" where
  "markLinks m linkingResults =
     andThen (markSources m linkingResults (replicate (numberOfVariables m) 0))
             (markTargets m linkingResults)"

definition readGTfromJson :: "Model \<Rightarrow> LinkResult list \<Rightarrow> Solution outcome" where
  "readGTfromJson m linkingResults =
     andThen (markLinks m linkingResults) (closeTracks m (segmentationHypotheses m))"

section \<open>Model::verifySolution\<close>

text \<open>
  \<^verbatim>\<open>ExclusionConstraint::verifySolution\<close> and \<^verbatim>\<open>SegmentationHypothesis::verifySolution\<close>
  are not among the sources: they are parameters. The second component of the result is
  what the function writes to \<^verbatim>\<open>std::cout\<close>, line by line.
\<close>

definition violatedExclusion :: string where
  "violatedExclusion = CHR 0x09 # ''Found violated exclusion constraint ''"

definition violatedConservation :: string where
  "violatedConservation = CHR 0x09 # ''Found violated flow conservation constraint ''"

fun verifyExclusions ::
  "(ExclusionConstraint \<Rightarrow> Solution \<Rightarrow> (int \<times> SegmentationHypothesis) list \<Rightarrow> bool)
     \<Rightarrow> Model \<Rightarrow> Solution \<Rightarrow> ExclusionConstraint list \<Rightarrow> bool \<times> string list \<Rightarrow> bool \<times> string list" where
  "verifyExclusions exclusionOk m sol [] st = st"
| "verifyExclusions exclusionOk m sol (c # rest) (valid, out) =
     (if \<not> exclusionOk c sol (segmentationHypotheses m)
      then verifyExclusions exclusionOk m sol rest (False, out @ [violatedExclusion])
      else verifyExclusions exclusionOk m sol rest (valid, out))"

fun verifySegmentations ::
  "(SegmentationHypothesis \<Rightarrow> Solution \<Rightarrow> bool)
     \<Rightarrow> Solution \<Rightarrow> (int \<times> SegmentationHypothesis) list \<Rightarrow> bool \<times> string list \<Rightarrow> bool \<times> string list" where
  "verifySegmentations hypothesisOk sol [] st = st"
| "verifySegmentations hypothesisOk sol ((i, h) # rest) (valid, out) =
     (if \<not> hypothesisOk h sol
      then verifySegmentations hypothesisOk sol rest (False, out @ [violatedConservation])
      else verifySegmentations hypothesisOk sol rest (valid, out))"

definition verifySolution ::
  "(ExclusionConstraint \<Rightarrow> Solution \<Rightarrow> (int \<times> SegmentationHypothesis) list \<Rightarrow> bool)
     \<Rightarrow> (SegmentationHypothesis \<Rightarrow> Solution \<Rightarrow> bool)
     \<Rightarrow> Model \<Rightarrow> Solution \<Rightarrow> bool \<times> string list" where
  "verifySolution exclusionOk hypothesisOk m sol =
     verifySegmentations hypothesisOk sol (segmentationHypotheses m)
       (verifyExclusions exclusionOk m sol (exclusionConstraints m) (True, [''Checking solution...'']))"

section \<open>The results without the model\<close>

text \<open>\<^verbatim>\<open>numWeights\<close> and \<^verbatim>\<open>weightDescriptions\<close> of the interface: what the two functions
  return, the side effect on the counts dropped.\<close>

definition numWeights :: "Model \<Rightarrow> nat outcome" where
  "numWeights m = map_outcome fst (computeNumWeights m)"

definition weightDescriptions :: "Model \<Rightarrow> string list outcome" where
  "weightDescriptions m = map_outcome fst (getWeightDescriptions m)"

section \<open>Feature counts of a graph, as the specification words them\<close>

text \<open>
  The five categories of Variables, the Variables of a category in the order the scans
  visit them, and their feature-vector lengths. A Variable of a segmentation hypothesis is
  present when features were supplied for it; the Variable of a link always is. The
  feature count of a category is the length its present Variables agree on, and 0 when
  there is none.
\<close>

datatype Category = Link | Detection | Division | Appearance | Disappearance

fun categoryVariables :: "Category \<Rightarrow> Model \<Rightarrow> Variable list" where
  "categoryVariables Link m = map (\<lambda>(k, l). variable l) (linkingHypotheses m)"
| "categoryVariables Detection m = map (\<lambda>(i, h). detection h) (segmentationHypotheses m)"
| "categoryVariables Division m = map (\<lambda>(i, h). division h) (segmentationHypotheses m)"
| "categoryVariables Appearance m = map (\<lambda>(i, h). appearance h) (segmentationHypotheses m)"
| "categoryVariables Disappearance m = map (\<lambda>(i, h). disappearance h) (segmentationHypotheses m)"

definition featureLengths :: "Category \<Rightarrow> Model \<Rightarrow> int list" where
  "featureLengths c m = map getNumFeatures (categoryVariables c m)"

definition presentLengths :: "Category \<Rightarrow> Model \<Rightarrow> int list" where
  "presentLengths c m = filter (\<lambda>n. c = Link \<or> n > 0) (featureLengths c m)"

definition lengthsAgree :: "Category \<Rightarrow> Model \<Rightarrow> bool" where
  "lengthsAgree c m = (\<forall>a \<in> set (presentLengths c m). \<forall>b \<in> set (presentLengths c m). a = b)"

definition featureCount :: "Category \<Rightarrow> Model \<Rightarrow> int" where
  "featureCount c m = (case presentLengths c m of [] \<Rightarrow> 0 | n # _ \<Rightarrow> n)"

text \<open>
  A category disagrees when two of its Variables have different non-zero lengths; the
  error message names a category in the plural.
\<close>

definition lengthsDiffer :: "Category \<Rightarrow> Model \<Rightarrow> bool" where
  "lengthsDiffer c m =
     (\<exists>a \<in> set (featureLengths c m). \<exists>b \<in> set (featureLengths c m). a > 0 \<and> b > 0 \<and> a \<noteq> b)"

fun categoryName :: "Category \<Rightarrow> string" where
  "categoryName Link = ''Links''"
| "categoryName Detection = ''Detections''"
| "categoryName Division = ''Divisions''"
| "categoryName Appearance = ''Appearances''"
| "categoryName Disappearance = ''Disappearances''"

definition inconsistent :: "Category \<Rightarrow> string" where
  "inconsistent c = categoryName c @ '' do not have the same number of features!''"

text \<open>
  Auxiliary notions for the scans: a running count \<open>p\<close> (negative while unset) meets a
  length \<open>n\<close>; what is left in the count after a list of lengths; and whether a list
  of lengths makes the scan throw.
\<close>

definition settle :: "int \<Rightarrow> int list \<Rightarrow> int" where
  "settle p ls = (if p < 0 then (case filter (\<lambda>n. n > 0) ls of [] \<Rightarrow> p | n # _ \<Rightarrow> n) else p)"

definition clash :: "int \<Rightarrow> int list \<Rightarrow> bool" where
  "clash p ls = (\<exists>a \<in> set ls. a > 0 \<and> ((0 \<le> p \<and> a \<noteq> p) \<or> (\<exists>b \<in> set ls. b > 0 \<and> a \<noteq> b)))"

definition linkSettle :: "int \<Rightarrow> int list \<Rightarrow> int" where
  "linkSettle p ls = (if p < 0 then (case ls of [] \<Rightarrow> p | n # _ \<Rightarrow> n) else p)"

definition linkClash :: "int \<Rightarrow> int list \<Rightarrow> bool" where
  "linkClash p ls = (\<exists>a \<in> set ls. (0 \<le> p \<and> a \<noteq> p) \<or> (\<exists>b \<in> set ls. a \<noteq> b))"

definition mismatch :: "int \<Rightarrow> int \<Rightarrow> bool" where
  "mismatch p n = (n > 0 \<and> 0 \<le> p \<and> n \<noteq> p)"

definition advance :: "int \<Rightarrow> int \<Rightarrow> int" where
  "advance p n = (if p < 0 \<and> n > 0 then n else p)"

section \<open>Ground-truth reconstruction, as the specification words it\<close>

text \<open>An annotation refers to a registered link when the graph files a link under its pair.\<close>

definition registered :: "Model \<Rightarrow> LinkResult \<Rightarrow> bool" where
  "registered m a = (map_of (linkingHypotheses m) (src a, dest a) \<noteq> None)"

text \<open>
  Modelled from the spec: registering the hypotheses with the optimizer
  (\<^verbatim>\<open>addToOpenGMModel\<close>) is not among the sources. It gives every present Variable a fresh
  optimizer id and leaves \<open>-1\<close> in an absent one; the solution has one slot per
  Variable. Link and detection Variables are always present. \<open>wellBuilt\<close> says so of a
  model: the ids are within the solution and no two Variables share one.
\<close>

definition linkIds :: "Model \<Rightarrow> int list" where
  "linkIds m = map (\<lambda>(k, l). getOpenGMVariableId (variable l)) (linkingHypotheses m)"

definition detectionIds :: "Model \<Rightarrow> int list" where
  "detectionIds m = map (\<lambda>(i, h). getOpenGMVariableId (detection h)) (segmentationHypotheses m)"

definition divisionIds :: "Model \<Rightarrow> int list" where
  "divisionIds m = map (\<lambda>(i, h). getOpenGMVariableId (division h)) (segmentationHypotheses m)"

definition appearanceIds :: "Model \<Rightarrow> int list" where
  "appearanceIds m = map (\<lambda>(i, h). getOpenGMVariableId (appearance h)) (segmentationHypotheses m)"

definition disappearanceIds :: "Model \<Rightarrow> int list" where
  "disappearanceIds m = map (\<lambda>(i, h). getOpenGMVariableId (disappearance h)) (segmentationHypotheses m)"

definition wellBuilt :: "Model \<Rightarrow> bool" where
  "wellBuilt m \<longleftrightarrow>
     (\<forall>i \<in> set (linkIds m @ detectionIds m). 0 \<le> i \<and> nat i < numberOfVariables m)
     \<and> (\<forall>i \<in> set (divisionIds m @ appearanceIds m @ disappearanceIds m).
           i = -1 \<or> (0 \<le> i \<and> nat i < numberOfVariables m))
     \<and> distinct (filter (\<lambda>i. i \<noteq> -1)
           (linkIds m @ detectionIds m @ divisionIds m @ appearanceIds m @ disappearanceIds m))"

text \<open>
  A Variable is active in a solution when its label is positive, and present when it has
  an optimizer id. A hypothesis needs its appearance (disappearance) Variable when its
  detection is active and none of its incoming (outgoing) links is; it lacks the Variable
  when it needs it and the Variable is absent. A hypothesis is closed in a solution when
  every Variable it needs is present and has label 1.
\<close>

definition isActive :: "Solution \<Rightarrow> Variable \<Rightarrow> bool" where
  "isActive sol v = (case solutionAt sol (getOpenGMVariableId v) of Returns x \<Rightarrow> x > 0 | _ \<Rightarrow> False)"

definition isPresent :: "Variable \<Rightarrow> bool" where
  "isPresent v = (getOpenGMVariableId v \<noteq> -1)"

definition needsAppearance :: "Model \<Rightarrow> Solution \<Rightarrow> int \<times> SegmentationHypothesis \<Rightarrow> bool" where
  "needsAppearance m sol x =
     (isActive sol (detection (snd x)) \<and> getNumActiveIncomingLinks m (fst x) sol = Returns 0)"

definition needsDisappearance :: "Model \<Rightarrow> Solution \<Rightarrow> int \<times> SegmentationHypothesis \<Rightarrow> bool" where
  "needsDisappearance m sol x =
     (isActive sol (detection (snd x)) \<and> getNumActiveOutgoingLinks m (fst x) sol = Returns 0)"

definition lacksAppearance :: "Model \<Rightarrow> Solution \<Rightarrow> int \<times> SegmentationHypothesis \<Rightarrow> bool" where
  "lacksAppearance m sol x = (needsAppearance m sol x \<and> \<not> isPresent (appearance (snd x)))"

definition lacksDisappearance :: "Model \<Rightarrow> Solution \<Rightarrow> int \<times> SegmentationHypothesis \<Rightarrow> bool" where
  "lacksDisappearance m sol x = (needsDisappearance m sol x \<and> \<not> isPresent (disappearance (snd x)))"

definition lacksNothing :: "Model \<Rightarrow> Solution \<Rightarrow> int \<times> SegmentationHypothesis \<Rightarrow> bool" where
  "lacksNothing m s x = (\<not> lacksAppearance m s x \<and> \<not> lacksDisappearance m s x)"

definition closed :: "Model \<Rightarrow> Solution \<Rightarrow> int \<times> SegmentationHypothesis \<Rightarrow> bool" where
  "closed m sol x =
     ((needsAppearance m sol x \<longrightarrow>
         isPresent (appearance (snd x))
         \<and> solutionAt sol (getOpenGMVariableId (appearance (snd x))) = Returns 1)
      \<and> (needsDisappearance m sol x \<longrightarrow>
         isPresent (disappearance (snd x))
         \<and> solutionAt sol (getOpenGMVariableId (disappearance (snd x))) = Returns 1))"

text \<open>The reconstruction fails at a hypothesis: with the appearance error when the
  appearance Variable is lacking, else with the disappearance error.\<close>

definition failsAt :: "Model \<Rightarrow> Solution \<Rightarrow> int \<times> SegmentationHypothesis \<Rightarrow> Solution outcome \<Rightarrow> bool" where
  "failsAt m s x r =
     ((lacksAppearance m s x \<and> r = Throws (noAppearanceFeatures (fst x)))
      \<or> (\<not> lacksAppearance m s x \<and> lacksDisappearance m s x
          \<and> r = Throws (noDisappearanceFeatures (fst x))))"

text \<open>
  Auxiliary notions for the third loop: the slots of link and detection Variables, which
  it only reads; two solutions that agree on them; and a solution that keeps the labels 1
  of another.
\<close>

definition protected :: "Model \<Rightarrow> int set" where
  "protected m = set (linkIds m) \<union> set (detectionIds m)"

definition agreeOn :: "Model \<Rightarrow> Solution \<Rightarrow> Solution \<Rightarrow> bool" where
  "agreeOn m s s' \<longleftrightarrow> length s' = length s \<and> (\<forall>i \<in> protected m. solutionAt s' i = solutionAt s i)"

definition keepsOnes :: "Solution \<Rightarrow> Solution \<Rightarrow> bool" where
  "keepsOnes s s' \<longleftrightarrow> (\<forall>i. solutionAt s i = Returns 1 \<longrightarrow> solutionAt s' i = Returns 1)"

text \<open>
  Auxiliary notions for the order of the annotations: what the first loop does for an
  entry with value true whose link is registered, in terms of the ids of the link, of the
  source's detection and of the source's division; and a list of steps run in sequence,
  which is what both loops over the annotations are.
\<close>

definition markIds :: "int \<Rightarrow> int \<Rightarrow> int \<Rightarrow> Solution \<Rightarrow> Solution outcome" where
  "markIds l d v s =
     andThen (solutionAssign s l 1) (\<lambda>s1.
     andThen (solutionAt s1 d) (\<lambda>x. if x = 1 then solutionAssign s1 v 1 else solutionAssign s1 d 1))"

fun sequence :: "('a \<Rightarrow> Solution \<Rightarrow> Solution outcome) \<Rightarrow> 'a list \<Rightarrow> Solution \<Rightarrow> Solution outcome" where
  "sequence f [] s = Returns s"
| "sequence f (x # xs) s = andThen (f x s) (sequence f xs)"

section \<open>Example graphs\<close>

text \<open>
  Two segmentation hypotheses joined by one link; hypothesis 1 has detection features
  only, hypothesis 2 has appearance features too. Optimizer ids are as a build leaves
  them: the link first, then the Variables of each hypothesis.
\<close>

definition hypothesisOne :: SegmentationHypothesis where
  "hypothesisOne =
     \<lparr> detection = \<lparr> features = [0.1], openGMVariableId = 1 \<rparr>,
       division = defaultVariable, appearance = defaultVariable,
       disappearance = defaultVariable \<rparr>"

definition hypothesisTwo :: SegmentationHypothesis where
  "hypothesisTwo =
     \<lparr> detection = \<lparr> features = [0.2], openGMVariableId = 2 \<rparr>,
       division = defaultVariable,
       appearance = \<lparr> features = [0.5], openGMVariableId = 3 \<rparr>,
       disappearance = defaultVariable \<rparr>"

definition exampleModel :: Model where
  "exampleModel =
     \<lparr> segmentationHypotheses = [(1, hypothesisOne), (2, hypothesisTwo)],
       linkingHypotheses = [((1, 2), \<lparr> variable = \<lparr> features = [0.3], openGMVariableId = 0 \<rparr> \<rparr>)],
       exclusionConstraints = [],
       numDetFeatures = 0, numDivFeatures = 0, numAppFeatures = 0, numDisFeatures = 0,
       numLinkFeatures = 0, numberOfVariables = 4 \<rparr>"

text \<open>Detection vectors of lengths 3 and 4, link vectors of lengths 1 and 2; not built.\<close>

definition twoMismatchesModel :: Model where
  "twoMismatchesModel =
     \<lparr> segmentationHypotheses =
         [(1, \<lparr> detection = \<lparr> features = [1, 2, 3], openGMVariableId = -1 \<rparr>,
                division = defaultVariable, appearance = defaultVariable,
                disappearance = defaultVariable \<rparr>),
          (2, \<lparr> detection = \<lparr> features = [1, 2, 3, 4], openGMVariableId = -1 \<rparr>,
                division = defaultVariable, appearance = defaultVariable,
                disappearance = defaultVariable \<rparr>)],
       linkingHypotheses =
         [((1, 2), \<lparr> variable = \<lparr> features = [1], openGMVariableId = -1 \<rparr> \<rparr>),
          ((2, 1), \<lparr> variable = \<lparr> features = [1, 2], openGMVariableId = -1 \<rparr> \<rparr>)],
       exclusionConstraints = [],
       numDetFeatures = 0, numDivFeatures = 0, numAppFeatures = 0, numDisFeatures = 0,
       numLinkFeatures = 0, numberOfVariables = 0 \<rparr>"

text \<open>
  A hypothesis with division and appearance features and three links to hypotheses with
  disappearance features; the same without the third link and without division features.
\<close>

definition divisionModel :: Model where
  "divisionModel =
     \<lparr> segmentationHypotheses =
         [(1, \<lparr> detection = \<lparr> features = [0.1], openGMVariableId = 3 \<rparr>,
                division = \<lparr> features = [0.7], openGMVariableId = 4 \<rparr>,
                appearance = \<lparr> features = [0.4], openGMVariableId = 5 \<rparr>,
                disappearance = defaultVariable \<rparr>),
          (2, \<lparr> detection = \<lparr> features = [0.2], openGMVariableId = 6 \<rparr>,
                division = defaultVariable, appearance = defaultVariable,
                disappearance = \<lparr> features = [0.6], openGMVariableId = 7 \<rparr> \<rparr>),
          (3, \<lparr> detection = \<lparr> features = [0.2], openGMVariableId = 8 \<rparr>,
                division = defaultVariable, appearance = defaultVariable,
                disappearance = \<lparr> features = [0.6], openGMVariableId = 9 \<rparr> \<rparr>),
          (4, \<lparr> detection = \<lparr> features = [0.2], openGMVariableId = 10 \<rparr>,
                division = defaultVariable, appearance = defaultVariable,
                disappearance = \<lparr> features = [0.6], openGMVariableId = 11 \<rparr> \<rparr>)],
       linkingHypotheses =
         [((1, 2), \<lparr> variable = \<lparr> features = [0.3], openGMVariableId = 0 \<rparr> \<rparr>),
          ((1, 3), \<lparr> variable = \<lparr> features = [0.3], openGMVariableId = 1 \<rparr> \<rparr>),
          ((1, 4), \<lparr> variable = \<lparr> features = [0.3], openGMVariableId = 2 \<rparr> \<rparr>)],
       exclusionConstraints = [],
       numDetFeatures = 0, numDivFeatures = 0, numAppFeatures = 0, numDisFeatures = 0,
       numLinkFeatures = 0, numberOfVariables = 12 \<rparr>"

definition noDivisionModel :: Model where
  "noDivisionModel =
     \<lparr> segmentationHypotheses =
         [(1, \<lparr> detection = \<lparr> features = [0.1], openGMVariableId = 2 \<rparr>,
                division = defaultVariable,
                appearance = \<lparr> features = [0.4], openGMVariableId = 3 \<rparr>,
                disappearance = defaultVariable \<rparr>),
          (2, \<lparr> detection = \<lparr> features = [0.2], openGMVariableId = 4 \<rparr>,
                division = defaultVariable, appearance = defaultVariable,
                disappearance = \<lparr> features = [0.6], openGMVariableId = 5 \<rparr> \<rparr>),
          (3, \<lparr> detection = \<lparr> features = [0.2], openGMVariableId = 6 \<rparr>,
                division = defaultVariable, appearance = defaultVariable,
                disappearance = \<lparr> features = [0.6], openGMVariableId = 7 \<rparr> \<rparr>)],
       linkingHypotheses =
         [((1, 2), \<lparr> variable = \<lparr> features = [0.3], openGMVariableId = 0 \<rparr> \<rparr>),
          ((1, 3), \<lparr> variable = \<lparr> features = [0.3], openGMVariableId = 1 \<rparr> \<rparr>)],
       exclusionConstraints = [],
       numDetFeatures = 0, numDivFeatures = 0, numAppFeatures = 0, numDisFeatures = 0,
       numLinkFeatures = 0, numberOfVariables = 8 \<rparr>"

text \<open>Entries of \<^verbatim>\<open>linkResults\<close> with value true and false.\<close>

definition active :: "int \<Rightarrow> int \<Rightarrow> LinkResult" where
  "active s d = \<lparr> src = s, dest = d, val = True \<rparr>"

definition inactive :: "int \<Rightarrow> int \<Rightarrow> LinkResult" where
  "inactive s d = \<lparr> src = s, dest = d, val = False \<rparr>"

section \<open>Sequencing\<close>

lemmas exampleModel_defs = exampleModel_def hypothesisOne_def hypothesisTwo_def

lemma andThen_simps [simp]:
  "andThen (Returns x) f = f x"
  "andThen (Throws e) f = Throws e"
  "andThen Undefined f = Undefined"
  by (simp_all add: andThen_def)

lemma andThen_Returns_iff: "andThen r f = Returns y \<longleftrightarrow> (\<exists>x. r = Returns x \<and> f x = Returns y)"
  by (cases r) simp_all

lemma andThen_Throws_iff:
  "andThen r f = Throws e \<longleftrightarrow> r = Throws e \<or> (\<exists>x. r = Returns x \<and> f x = Throws e)"
  by (cases r) simp_all

lemma andThen_Undefined_iff:
  "andThen r f = Undefined \<longleftrightarrow> r = Undefined \<or> (\<exists>x. r = Returns x \<and> f x = Undefined)"
  by (cases r) simp_all

section \<open>The two scans of computeNumWeights\<close>

lemma checkNumFeatures_mismatch:
  "mismatch p (getNumFeatures v) \<Longrightarrow>
   checkNumFeatures v p name = Throws (name @ '' do not have the same number of features!'')"
  by (auto simp: checkNumFeatures_def mismatch_def)

lemma checkNumFeatures_advance:
  "\<not> mismatch p (getNumFeatures v) \<Longrightarrow>
   checkNumFeatures v p name = Returns (advance p (getNumFeatures v))"
  by (auto simp: checkNumFeatures_def mismatch_def advance_def)

lemma clash_Cons:
  "clash p (n # ls) \<longleftrightarrow> mismatch p n \<or> clash (advance p n) ls"
  unfolding clash_def mismatch_def advance_def by (cases "p < 0"; cases "n > 0") (auto; metis)+

lemma settle_Cons:
  "settle p (n # ls) = settle (advance p n) ls"
  by (auto simp: settle_def advance_def)

lemma clash_Nil [simp]: "\<not> clash p []" by (simp add: clash_def)
lemma settle_Nil [simp]: "settle p [] = p" by (simp add: settle_def)

lemma scanSegmentations_cases:
  "(\<not> clash d (map (\<lambda>(i, h). getNumFeatures (detection h)) segs)
      \<and> \<not> clash v (map (\<lambda>(i, h). getNumFeatures (division h)) segs)
      \<and> \<not> clash a (map (\<lambda>(i, h). getNumFeatures (appearance h)) segs)
      \<and> \<not> clash s (map (\<lambda>(i, h). getNumFeatures (disappearance h)) segs)
      \<and> scanSegmentations segs (d, v, a, s) =
          Returns (settle d (map (\<lambda>(i, h). getNumFeatures (detection h)) segs),
                   settle v (map (\<lambda>(i, h). getNumFeatures (division h)) segs),
                   settle a (map (\<lambda>(i, h). getNumFeatures (appearance h)) segs),
                   settle s (map (\<lambda>(i, h). getNumFeatures (disappearance h)) segs)))
   \<or> (clash d (map (\<lambda>(i, h). getNumFeatures (detection h)) segs)
      \<and> scanSegmentations segs (d, v, a, s) = Throws (inconsistent Detection))
   \<or> (clash v (map (\<lambda>(i, h). getNumFeatures (division h)) segs)
      \<and> scanSegmentations segs (d, v, a, s) = Throws (inconsistent Division))
   \<or> (clash a (map (\<lambda>(i, h). getNumFeatures (appearance h)) segs)
      \<and> scanSegmentations segs (d, v, a, s) = Throws (inconsistent Appearance))
   \<or> (clash s (map (\<lambda>(i, h). getNumFeatures (disappearance h)) segs)
      \<and> scanSegmentations segs (d, v, a, s) = Throws (inconsistent Disappearance))"
proof (induction segs arbitrary: d v a s)
  case Nil
  show ?case by simp
next
  case (Cons x segs)
  obtain i h where x: "x = (i, h)" by (cases x)
  let ?nd = "getNumFeatures (detection h)"
  let ?nv = "getNumFeatures (division h)"
  let ?na = "getNumFeatures (appearance h)"
  let ?ns = "getNumFeatures (disappearance h)"
  note IH = Cons.IH [of "advance d ?nd" "advance v ?nv" "advance a ?na" "advance s ?ns"]
  consider (det) "mismatch d ?nd"
    | (dv) "\<not> mismatch d ?nd" "mismatch v ?nv"
    | (app) "\<not> mismatch d ?nd" "\<not> mismatch v ?nv" "mismatch a ?na"
    | (dis) "\<not> mismatch d ?nd" "\<not> mismatch v ?nv" "\<not> mismatch a ?na" "mismatch s ?ns"
    | (ok) "\<not> mismatch d ?nd" "\<not> mismatch v ?nv" "\<not> mismatch a ?na" "\<not> mismatch s ?ns"
    by blast
  then show ?case
  proof cases
    case det
    then show ?thesis
      by (simp add: x checkNumFeatures_mismatch clash_Cons inconsistent_def)
  next
    case dv
    then show ?thesis
      by (simp add: x checkNumFeatures_mismatch checkNumFeatures_advance clash_Cons inconsistent_def)
  next
    case app
    then show ?thesis
      by (simp add: x checkNumFeatures_mismatch checkNumFeatures_advance clash_Cons inconsistent_def)
  next
    case dis
    then show ?thesis
      by (simp add: x checkNumFeatures_mismatch checkNumFeatures_advance clash_Cons inconsistent_def)
  next
    case ok
    then show ?thesis
      using IH by (simp add: x checkNumFeatures_advance clash_Cons settle_Cons)
  qed
qed

lemma linkClash_Cons:
  "0 \<le> n \<Longrightarrow> linkClash p (n # ls) \<longleftrightarrow> (0 \<le> p \<and> n \<noteq> p) \<or> linkClash (if p < 0 then n else p) ls"
  unfolding linkClash_def by (cases "p < 0") (auto; metis)+

lemma scanLinks_eq:
  "scanLinks links p =
     (if linkClash p (map (\<lambda>(k, l). getNumFeatures (variable l)) links)
      then Throws (inconsistent Link)
      else Returns (linkSettle p (map (\<lambda>(k, l). getNumFeatures (variable l)) links)))"
proof (induction links arbitrary: p)
  case Nil
  show ?case by (simp add: linkClash_def linkSettle_def)
next
  case (Cons x links)
  obtain k l where x: "x = (k, l)" by (cases x)
  have nn: "0 \<le> getNumFeatures (variable l)" by (simp add: getNumFeatures_def)
  show ?case
  proof (cases "p < 0")
    case True
    then show ?thesis
      using nn Cons.IH [of "getNumFeatures (variable l)"]
      by (simp add: x linkClash_Cons linkSettle_def)
  next
    case False
    then show ?thesis
      using nn Cons.IH [of p]
      by (simp add: x linkClash_Cons linkSettle_def inconsistent_def)
  qed
qed

lemma featureLengths_simps:
  "featureLengths Link m = map (\<lambda>(k, l). getNumFeatures (variable l)) (linkingHypotheses m)"
  "featureLengths Detection m = map (\<lambda>(i, h). getNumFeatures (detection h)) (segmentationHypotheses m)"
  "featureLengths Division m = map (\<lambda>(i, h). getNumFeatures (division h)) (segmentationHypotheses m)"
  "featureLengths Appearance m = map (\<lambda>(i, h). getNumFeatures (appearance h)) (segmentationHypotheses m)"
  "featureLengths Disappearance m = map (\<lambda>(i, h). getNumFeatures (disappearance h)) (segmentationHypotheses m)"
  by (simp_all add: featureLengths_def case_prod_unfold)

lemma clash_unset: "clash (-1) ls \<longleftrightarrow> (\<exists>a \<in> set ls. \<exists>b \<in> set ls. a > 0 \<and> b > 0 \<and> a \<noteq> b)"
  by (auto simp: clash_def)

lemma linkClash_unset: "linkClash (-1) ls \<longleftrightarrow> (\<exists>a \<in> set ls. \<exists>b \<in> set ls. a \<noteq> b)"
  by (auto simp: linkClash_def)

lemma lengthsAgree_no_clash:
  "c \<noteq> Link \<Longrightarrow> lengthsAgree c m \<Longrightarrow> \<not> clash (-1) (featureLengths c m)"
  by (auto simp: lengthsAgree_def presentLengths_def clash_unset)

lemma lengthsAgree_no_linkClash:
  "lengthsAgree Link m \<Longrightarrow> \<not> linkClash (-1) (featureLengths Link m)"
  by (auto simp: lengthsAgree_def presentLengths_def linkClash_unset)

lemma settle_featureCount:
  "c \<noteq> Link \<Longrightarrow> max 0 (settle (-1) (featureLengths c m)) = featureCount c m"
proof -
  assume c: "c \<noteq> Link"
  show ?thesis
  proof (cases "filter (\<lambda>n. n > 0) (featureLengths c m)")
    case Nil
    then show ?thesis using c by (simp add: settle_def featureCount_def presentLengths_def)
  next
    case (Cons n ns)
    then have "n \<in> set (filter (\<lambda>n. n > 0) (featureLengths c m))" by simp
    then have "n > 0" by simp
    then show ?thesis using c Cons by (simp add: settle_def featureCount_def presentLengths_def)
  qed
qed

lemma linkSettle_featureCount:
  "max 0 (linkSettle (-1) (featureLengths Link m)) = featureCount Link m"
proof (cases "featureLengths Link m")
  case Nil
  then show ?thesis by (simp add: linkSettle_def featureCount_def presentLengths_def)
next
  case (Cons n ns)
  then have "n \<in> set (featureLengths Link m)" by simp
  then have "0 \<le> n" by (auto simp: featureLengths_def getNumFeatures_def)
  then show ?thesis using Cons by (simp add: linkSettle_def featureCount_def presentLengths_def)
qed

lemma length_addVariableWeightDescriptions:
  "length (addVariableWeightDescriptions k name) = 2 * k"
proof -
  have "[0 ..< 2] = [0, Suc 0]" by (simp add: upt_rec)
  then show ?thesis by (simp add: addVariableWeightDescriptions_def)
qed

lemma computeNumWeights_Returns:
  assumes "computeNumWeights m = Returns (n, m')"
  shows "n = nat (2 * (numDetFeatures m' + numDivFeatures m' + numLinkFeatures m'
                       + numAppFeatures m' + numDisFeatures m'))"
    and "0 \<le> numDetFeatures m'" and "0 \<le> numDivFeatures m'" and "0 \<le> numLinkFeatures m'"
    and "0 \<le> numAppFeatures m'" and "0 \<le> numDisFeatures m'"
  using assms
  by (auto simp: computeNumWeights_def andThen_Returns_iff Let_def)

lemma show_nat_digits: "show_nat 0 = ''0''" "show_nat 1 = ''1''" "show_nat (Suc 0) = ''1''"
  by (simp_all add: show_nat.simps digit_char_def)

lemma exampleModel_scan:
  "scanSegmentations (segmentationHypotheses exampleModel) (-1, -1, -1, -1) = Returns (1, -1, 1, -1)"
  "scanLinks (linkingHypotheses exampleModel) (-1) = Returns 1"
  by (simp_all add: exampleModel_defs checkNumFeatures_def getNumFeatures_def defaultVariable_def)

lemma exampleModel_counts:
  "computeNumWeights exampleModel =
     Returns (6, exampleModel\<lparr> numDetFeatures := 1, numDivFeatures := 0, numAppFeatures := 1,
                               numDisFeatures := 0, numLinkFeatures := 1 \<rparr>)"
  by (simp add: computeNumWeights_def exampleModel_scan Let_def)

section \<open>The number of weights\<close>

text \<open>
  Claim C5. For every graph, \<open>numWeights\<close> is the length of the list that
  \<open>weightDescriptions\<close> returns; when the feature counts are inconsistent both fail with
  the same error.
\<close>

theorem numWeights_is_number_of_descriptions:
  "map_outcome length (weightDescriptions m) = numWeights m"
proof (cases "computeNumWeights m")
  case (Returns r)
  obtain n m' where r: "r = (n, m')" by (cases r)
  note facts = computeNumWeights_Returns [OF Returns [unfolded r]]
  show ?thesis
    using facts
    by (simp add: weightDescriptions_def numWeights_def getWeightDescriptions_def Returns r
        length_addVariableWeightDescriptions)
next
  case (Throws e)
  then show ?thesis
    by (simp add: weightDescriptions_def numWeights_def getWeightDescriptions_def)
next
  case Undefined
  then show ?thesis
    by (simp add: weightDescriptions_def numWeights_def getWeightDescriptions_def)
qed

text \<open>
  Claim C6. When in every category the present Variables agree on the length of their
  feature vectors, \<open>computeNumWeights\<close> returns twice the sum of the five feature counts
  (and leaves the five counts in the model), a category without present Variable counting 0.
\<close>

theorem numWeights_of_consistent_graph:
  assumes "lengthsAgree Link m" and "lengthsAgree Detection m" and "lengthsAgree Division m"
    and "lengthsAgree Appearance m" and "lengthsAgree Disappearance m"
  shows "computeNumWeights m =
           Returns (nat (2 * (featureCount Link m + featureCount Detection m + featureCount Division m
                              + featureCount Appearance m + featureCount Disappearance m)),
                    m\<lparr> numDetFeatures := featureCount Detection m,
                       numDivFeatures := featureCount Division m,
                       numAppFeatures := featureCount Appearance m,
                       numDisFeatures := featureCount Disappearance m,
                       numLinkFeatures := featureCount Link m \<rparr>)"
proof -
  have nc: "\<not> clash (-1) (featureLengths Detection m)" "\<not> clash (-1) (featureLengths Division m)"
    "\<not> clash (-1) (featureLengths Appearance m)" "\<not> clash (-1) (featureLengths Disappearance m)"
    using assms by (simp_all add: lengthsAgree_no_clash)
  have segs: "scanSegmentations (segmentationHypotheses m) (-1, -1, -1, -1) =
      Returns (settle (-1) (featureLengths Detection m), settle (-1) (featureLengths Division m),
               settle (-1) (featureLengths Appearance m), settle (-1) (featureLengths Disappearance m))"
    using scanSegmentations_cases [of "-1" "segmentationHypotheses m" "-1" "-1" "-1"] nc
    by (simp add: featureLengths_simps)
  have links: "scanLinks (linkingHypotheses m) (-1) = Returns (linkSettle (-1) (featureLengths Link m))"
    using scanLinks_eq [of "linkingHypotheses m" "-1"] lengthsAgree_no_linkClash [OF assms(1)]
    by (simp add: featureLengths_simps)
  have cnt: "max 0 (settle (-1) (featureLengths Detection m)) = featureCount Detection m"
    "max 0 (settle (-1) (featureLengths Division m)) = featureCount Division m"
    "max 0 (settle (-1) (featureLengths Appearance m)) = featureCount Appearance m"
    "max 0 (settle (-1) (featureLengths Disappearance m)) = featureCount Disappearance m"
    by (simp_all add: settle_featureCount)
  show ?thesis
    unfolding computeNumWeights_def segs links
    by (simp add: Let_def cnt linkSettle_featureCount add_ac)
qed

text \<open>The graph of two hypotheses and one link: counts 1, 1, 0, 1, 0 and six weights.\<close>

theorem numWeights_of_consistent_graph_witness:
  "lengthsAgree Link exampleModel \<and> lengthsAgree Detection exampleModel
   \<and> lengthsAgree Division exampleModel \<and> lengthsAgree Appearance exampleModel
   \<and> lengthsAgree Disappearance exampleModel
   \<and> computeNumWeights exampleModel =
       Returns (6, exampleModel\<lparr> numDetFeatures := 1, numDivFeatures := 0, numAppFeatures := 1,
                                 numDisFeatures := 0, numLinkFeatures := 1 \<rparr>)"
proof -
  have a: "lengthsAgree Link exampleModel" "lengthsAgree Detection exampleModel"
    "lengthsAgree Division exampleModel" "lengthsAgree Appearance exampleModel"
    "lengthsAgree Disappearance exampleModel"
    by (simp_all add: lengthsAgree_def presentLengths_def featureLengths_def exampleModel_defs
        getNumFeatures_def defaultVariable_def)
  have c: "featureCount Link exampleModel = 1" "featureCount Detection exampleModel = 1"
    "featureCount Division exampleModel = 0" "featureCount Appearance exampleModel = 1"
    "featureCount Disappearance exampleModel = 0"
    by (simp_all add: featureCount_def presentLengths_def featureLengths_def exampleModel_defs
        getNumFeatures_def defaultVariable_def)
  show ?thesis
    using a numWeights_of_consistent_graph [OF a] by (simp add: c)
qed

text \<open>
  Claim C7, as amended. When some category holds two Variables with different non-zero
  feature-vector lengths, \<open>computeNumWeights\<close> fails with the error that names a
  category holding two such Variables: the one the scan meets first, hence that very
  category when it is the only one.
\<close>

theorem inconsistent_category_reported:
  assumes "lengthsDiffer c m"
  shows "\<exists>c'. lengthsDiffer c' m \<and> computeNumWeights m = Throws (inconsistent c')"
proof -
  let ?scan = "scanSegmentations (segmentationHypotheses m) (-1, -1, -1, -1)"
  note cases = scanSegmentations_cases [of "-1" "segmentationHypotheses m" "-1" "-1" "-1",
      folded featureLengths_simps]
  have thrown: "lengthsDiffer c' m \<and> computeNumWeights m = Throws (inconsistent c')"
    if "clash (-1) (featureLengths c' m)" "?scan = Throws (inconsistent c')" for c'
    using that by (simp add: computeNumWeights_def lengthsDiffer_def clash_unset)
  show ?thesis
  proof (cases "\<exists>e. ?scan = Throws e")
    case True
    with cases thrown show ?thesis by (elim disjE conjE exE) (simp, blast+)
  next
    case False
    with cases obtain st where st: "?scan = Returns st"
      and nc: "\<not> clash (-1) (featureLengths Detection m)" "\<not> clash (-1) (featureLengths Division m)"
        "\<not> clash (-1) (featureLengths Appearance m)" "\<not> clash (-1) (featureLengths Disappearance m)"
      by auto
    have "c = Link"
      using assms nc by (cases c) (simp_all add: lengthsDiffer_def clash_unset)
    then have "linkClash (-1) (featureLengths Link m)"
      using assms by (auto simp: lengthsDiffer_def linkClash_unset)
    then have "scanLinks (linkingHypotheses m) (-1) = Throws (inconsistent Link)"
      using scanLinks_eq [of "linkingHypotheses m" "-1"] by (simp add: featureLengths_simps)
    then have "computeNumWeights m = Throws (inconsistent Link)"
      using st by (cases st) (simp add: computeNumWeights_def)
    with assms \<open>c = Link\<close> show ?thesis by blast
  qed
qed

theorem inconsistent_category_reported_witness:
  "lengthsDiffer Detection twoMismatchesModel
   \<and> (\<exists>c'. lengthsDiffer c' twoMismatchesModel
           \<and> computeNumWeights twoMismatchesModel = Throws (inconsistent c'))"
proof -
  have d: "lengthsDiffer Detection twoMismatchesModel"
    by (simp add: lengthsDiffer_def featureLengths_def twoMismatchesModel_def getNumFeatures_def)
  show ?thesis
    using d inconsistent_category_reported [OF d] by simp
qed

text \<open>
  Claim C7 as stated fails where two categories disagree: with detection vectors of
  lengths 3 and 4 and link vectors of lengths 1 and 2, the links differ, and the error
  names the detections, which the scan meets first.
\<close>

theorem links_differ_detections_reported:
  "lengthsDiffer Link twoMismatchesModel
   \<and> computeNumWeights twoMismatchesModel = Throws ''Detections do not have the same number of features!''
   \<and> computeNumWeights twoMismatchesModel \<noteq> Throws (inconsistent Link)"
proof -
  have "lengthsDiffer Link twoMismatchesModel"
    by (simp add: lengthsDiffer_def featureLengths_def twoMismatchesModel_def getNumFeatures_def)
  moreover have "scanSegmentations (segmentationHypotheses twoMismatchesModel) (-1, -1, -1, -1)
      = Throws ''Detections do not have the same number of features!''"
    by (simp add: twoMismatchesModel_def checkNumFeatures_def getNumFeatures_def defaultVariable_def)
  then have "computeNumWeights twoMismatchesModel = Throws ''Detections do not have the same number of features!''"
    by (simp add: computeNumWeights_def)
  ultimately show ?thesis by (simp add: inconsistent_def)
qed

section \<open>The order of the weight descriptions\<close>

text \<open>
  Claim C2, evaluated on the graph of two hypotheses and one link. The layout gives the
  link weights the indices 0 and 1, the detection weights 2 and 3 and the appearance
  weights 4 and 5; the descriptions list detection first and the link last, so the
  description at index 0 names a detection weight where weight 0 belongs to the link.
\<close>

theorem descriptions_against_layout:
  "weightDescriptions exampleModel =
     Returns [''Detection = 0 - feature 0'', ''Detection = 1 - feature 0'',
              ''Appearance = 0 - feature 0'', ''Appearance = 1 - feature 0'',
              ''Link = 0 - feature 0'', ''Link = 1 - feature 0'']
   \<and> weightIds exampleModel = Returns ([0, 1], [2, 3], [], [4, 5], [])"
proof -
  have u: "[0 ..< 2] = [0, Suc 0]" "[0 ..< Suc 0] = [0]" "[2 ..< 4] = [2, 3]" "[4 ..< 6] = [4, 5]"
     "[0 ..< 0] = []" "[4 ..< 4] = []" "[6 ..< 6] = []"
    by (simp_all add: upt_rec)
  have "weightDescriptions exampleModel =
     Returns [''Detection = 0 - feature 0'', ''Detection = 1 - feature 0'',
              ''Appearance = 0 - feature 0'', ''Appearance = 1 - feature 0'',
              ''Link = 0 - feature 0'', ''Link = 1 - feature 0'']"
    by (simp add: weightDescriptions_def getWeightDescriptions_def exampleModel_counts
        addVariableWeightDescriptions_def u show_nat_digits)
  moreover have "weightIds exampleModel = Returns ([0, 1], [2, 3], [], [4, 5], [])"
    by (simp add: weightIds_def exampleModel_counts Let_def u)
  ultimately show ?thesis by simp
qed

section \<open>Reconstruction: evaluation on the examples\<close>

lemmas eval_defs = readGTfromJson_def markLinks_def markSource_def markTarget_def
  segmentationAt_def solutionAt_def solutionAssign_def getOpenGMVariableId_def
  closeHypothesis_def closeAppearance_def closeDisappearance_def
  getNumActiveIncomingLinks_def getNumActiveOutgoingLinks_def incomingLinks_def outgoingLinks_def
  defaultVariable_def defaultSegmentationHypothesis_def active_def

lemma show_int_small: "show_int 1 = ''1''" "show_int 2 = ''2''" "show_int 9 = ''9''"
  by (simp_all add: show_int_def show_nat.simps digit_char_def)

lemma exampleModel_marked: "markLinks exampleModel [active 1 2] = Returns [1, 1, 1, 0]"
  by (simp add: exampleModel_defs eval_defs numeral_eq_Suc)

lemma exampleModel_wellBuilt: "wellBuilt exampleModel"
  by (simp add: wellBuilt_def linkIds_def detectionIds_def divisionIds_def appearanceIds_def
      disappearanceIds_def exampleModel_defs getOpenGMVariableId_def defaultVariable_def)

lemma divisionModel_wellBuilt: "wellBuilt divisionModel"
  by (simp add: wellBuilt_def linkIds_def detectionIds_def divisionIds_def appearanceIds_def
      disappearanceIds_def divisionModel_def getOpenGMVariableId_def defaultVariable_def)

lemma noDivisionModel_wellBuilt: "wellBuilt noDivisionModel"
  by (simp add: wellBuilt_def linkIds_def detectionIds_def divisionIds_def appearanceIds_def
      disappearanceIds_def noDivisionModel_def getOpenGMVariableId_def defaultVariable_def)

lemma divisionModel_marked:
  "markLinks divisionModel [active 1 2, active 1 3] = Returns [1, 1, 0, 1, 1, 0, 1, 0, 1, 0, 0, 0]"
  by (simp add: divisionModel_def eval_defs numeral_eq_Suc)

lemma divisionModel_two:
  "readGTfromJson divisionModel [active 1 2, active 1 3] = Returns [1, 1, 0, 1, 1, 1, 1, 1, 1, 1, 0, 0]"
  by (simp add: divisionModel_def eval_defs numeral_eq_Suc)

lemma exampleModel_gap:
  "\<not> lacksNothing exampleModel [1, 1, 1, 0] (2, hypothesisTwo)"
  by (simp add: lacksNothing_def lacksAppearance_def lacksDisappearance_def needsAppearance_def
      needsDisappearance_def isActive_def isPresent_def exampleModel_defs eval_defs)

section \<open>Reconstruction: which errors can be raised\<close>

lemma solutionAt_not_Throws [simp]: "solutionAt sol i \<noteq> Throws e"
  by (simp add: solutionAt_def)

lemma solutionAssign_not_Throws [simp]: "solutionAssign sol i v \<noteq> Throws e"
  by (simp add: solutionAssign_def)

lemma markSource_cases:
  "markSource m a sol = Undefined
   \<or> (val a \<and> \<not> registered m a \<and> markSource m a sol = Throws (cannotFindLink (src a) (dest a)))
   \<or> ((val a \<longrightarrow> registered m a) \<and> (\<exists>sol'. markSource m a sol = Returns sol'))"
proof (cases "val a")
  case False
  then show ?thesis by (simp add: markSource_def)
next
  case True
  show ?thesis
  proof (cases "map_of (linkingHypotheses m) (src a, dest a)")
    case None
    then show ?thesis using True by (simp add: markSource_def registered_def)
  next
    case (Some hyp)
    then have r: "registered m a" by (simp add: registered_def)
    have "markSource m a sol \<noteq> Throws e" for e
      using True Some
      by (auto simp: markSource_def andThen_Throws_iff split: if_splits)
    then show ?thesis
      using r by (cases "markSource m a sol") auto
  qed
qed

lemma markSources_cases:
  "markSources m anns sol = Undefined
   \<or> (\<exists>a \<in> set anns. val a \<and> \<not> registered m a
          \<and> markSources m anns sol = Throws (cannotFindLink (src a) (dest a)))
   \<or> ((\<forall>a \<in> set anns. val a \<longrightarrow> registered m a) \<and> (\<exists>sol'. markSources m anns sol = Returns sol'))"
proof (induction anns arbitrary: sol)
  case Nil
  show ?case by simp
next
  case (Cons a anns)
  from markSource_cases [of m a sol] show ?case
  proof (elim disjE conjE exE)
    assume "markSource m a sol = Undefined"
    then show ?thesis by simp
  next
    assume "val a" "\<not> registered m a" "markSource m a sol = Throws (cannotFindLink (src a) (dest a))"
    then show ?thesis by simp
  next
    fix sol'
    assume a: "val a \<longrightarrow> registered m a" "markSource m a sol = Returns sol'"
    from Cons.IH [of sol'] a show ?thesis by auto
  qed
qed

lemma markTargets_not_Throws: "markTargets m anns sol \<noteq> Throws e"
  by (induction anns arbitrary: sol) (auto simp: markTarget_def andThen_Throws_iff)

lemma countActive_not_Throws: "countActive ls sol \<noteq> Throws e"
  by (induction ls) (auto simp: andThen_Throws_iff)

lemma closeHypothesis_Throws:
  "closeHypothesis m i h sol = Throws e \<Longrightarrow> e = noAppearanceFeatures i \<or> e = noDisappearanceFeatures i"
  by (auto simp: closeHypothesis_def closeAppearance_def closeDisappearance_def
      getNumActiveIncomingLinks_def getNumActiveOutgoingLinks_def countActive_not_Throws
      andThen_Throws_iff split: if_splits)

lemma closeTracks_Throws:
  "closeTracks m segs sol = Throws e \<Longrightarrow>
   \<exists>i. e = noAppearanceFeatures i \<or> e = noDisappearanceFeatures i"
proof (induction segs arbitrary: sol)
  case Nil
  then show ?case by simp
next
  case (Cons x segs)
  obtain i h where x: "x = (i, h)" by (cases x)
  from Cons.prems show ?case
    using Cons.IH closeHypothesis_Throws [of m i h sol e]
    by (auto simp: x andThen_Throws_iff)
qed

lemma cannotFindLink_not_closing:
  "cannotFindLink s d \<noteq> noAppearanceFeatures i" "cannotFindLink s d \<noteq> noDisappearanceFeatures i"
  by (simp_all add: cannotFindLink_def noAppearanceFeatures_def noDisappearanceFeatures_def)

text \<open>
  On a run that stays within the solution vector, an entry with value true whose link is
  not registered makes the reconstruction fail with the error for such an entry; when
  every entry with value true names a registered link, that error is never raised.
\<close>

lemma unregistered_link_reported_when_defined:
  "((\<exists>a \<in> set anns. val a \<and> \<not> registered m a) \<and> readGTfromJson m anns \<noteq> Undefined
      \<longrightarrow> (\<exists>a \<in> set anns. val a \<and> \<not> registered m a
             \<and> readGTfromJson m anns = Throws (cannotFindLink (src a) (dest a))))
   \<and> ((\<forall>a \<in> set anns. val a \<longrightarrow> registered m a)
      \<longrightarrow> (\<forall>s d. readGTfromJson m anns \<noteq> Throws (cannotFindLink s d)))"
proof (intro conjI impI allI)
  assume "(\<exists>a \<in> set anns. val a \<and> \<not> registered m a) \<and> readGTfromJson m anns \<noteq> Undefined"
  then show "\<exists>a \<in> set anns. val a \<and> \<not> registered m a
             \<and> readGTfromJson m anns = Throws (cannotFindLink (src a) (dest a))"
    using markSources_cases [of m anns "replicate (numberOfVariables m) 0"]
    by (auto simp: readGTfromJson_def markLinks_def)
next
  fix s d
  assume all: "\<forall>a \<in> set anns. val a \<longrightarrow> registered m a"
  show "readGTfromJson m anns \<noteq> Throws (cannotFindLink s d)"
  proof
    assume t: "readGTfromJson m anns = Throws (cannotFindLink s d)"
    from all markSources_cases [of m anns "replicate (numberOfVariables m) 0"]
    have "markSources m anns (replicate (numberOfVariables m) 0) \<noteq> Throws (cannotFindLink s d)"
      by auto
    with t have "\<exists>sol. closeTracks m (segmentationHypotheses m) sol = Throws (cannotFindLink s d)"
      by (auto simp: readGTfromJson_def markLinks_def andThen_Throws_iff markTargets_not_Throws)
    then show False
      using closeTracks_Throws cannotFindLink_not_closing by metis
  qed
qed

text \<open>The error of the first loop for a source used twice is never raised.\<close>

lemma duplicate_use_never_reported:
  "readGTfromJson m anns \<noteq> Throws ''A source node has been used more than once!''"
proof
  let ?e = "''A source node has been used more than once!''"
  assume t: "readGTfromJson m anns = Throws ?e"
  have ne: "cannotFindLink s d \<noteq> ?e" "?e \<noteq> noAppearanceFeatures i" "?e \<noteq> noDisappearanceFeatures i"
    for s d i
    by (simp_all add: cannotFindLink_def noAppearanceFeatures_def noDisappearanceFeatures_def)
  from markSources_cases [of m anns "replicate (numberOfVariables m) 0"] ne(1)
  have "markSources m anns (replicate (numberOfVariables m) 0) \<noteq> Throws ?e"
    by auto
  with t have "\<exists>sol. closeTracks m (segmentationHypotheses m) sol = Throws ?e"
    by (auto simp: readGTfromJson_def markLinks_def andThen_Throws_iff markTargets_not_Throws)
  then show False
    using closeTracks_Throws ne(2,3) by metis
qed

section \<open>Reconstruction: entries with value false\<close>

lemma markSources_filter: "markSources m (filter val anns) sol = markSources m anns sol"
proof (induction anns arbitrary: sol)
  case Nil
  show ?case by simp
next
  case (Cons a anns)
  have rest: "markSources m (filter val anns) = markSources m anns"
    by (rule ext) (rule Cons.IH)
  show ?case
  proof (cases "val a")
    case True
    then show ?thesis by (simp add: rest)
  next
    case False
    then show ?thesis by (simp add: rest markSource_def)
  qed
qed

lemma markTargets_filter: "markTargets m (filter val anns) sol = markTargets m anns sol"
proof (induction anns arbitrary: sol)
  case Nil
  show ?case by simp
next
  case (Cons a anns)
  have rest: "markTargets m (filter val anns) = markTargets m anns"
    by (rule ext) (rule Cons.IH)
  show ?case
  proof (cases "val a")
    case True
    then show ?thesis by (simp add: rest)
  next
    case False
    then show ?thesis by (simp add: rest markTarget_def)
  qed
qed

lemma readGTfromJson_filter: "readGTfromJson m (filter val anns) = readGTfromJson m anns"
proof -
  have "markTargets m (filter val anns) = markTargets m anns"
    by (rule ext) (rule markTargets_filter)
  then show ?thesis
    by (simp add: readGTfromJson_def markLinks_def markSources_filter)
qed

section \<open>Reconstruction: the third loop\<close>

lemma agreeOn_refl [simp]: "agreeOn m s s" by (simp add: agreeOn_def)

lemma agreeOn_trans: "agreeOn m s s' \<Longrightarrow> agreeOn m s' s'' \<Longrightarrow> agreeOn m s s''"
  by (simp add: agreeOn_def)

lemma keepsOnes_refl [simp]: "keepsOnes s s" by (simp add: keepsOnes_def)

lemma keepsOnes_trans: "keepsOnes s s' \<Longrightarrow> keepsOnes s' s'' \<Longrightarrow> keepsOnes s s''"
  by (simp add: keepsOnes_def)

lemma solutionAssign_Returns:
  "solutionAssign s i v = Returns s' \<longleftrightarrow> 0 \<le> i \<and> nat i < length s \<and> s' = s[nat i := v]"
  by (auto simp: solutionAssign_def)

lemma solutionAt_update:
  "0 \<le> i \<Longrightarrow>
   solutionAt (s[nat i := v]) j = (if j = i \<and> nat i < length s then Returns v else solutionAt s j)"
  by (auto simp: solutionAt_def nth_list_update)

lemma assign_agreeOn:
  "solutionAssign s i v = Returns s' \<Longrightarrow> i \<notin> protected m \<Longrightarrow> agreeOn m s s'"
  by (auto simp: solutionAssign_Returns agreeOn_def solutionAt_update)

lemma assign_keepsOnes: "solutionAssign s i 1 = Returns s' \<Longrightarrow> keepsOnes s s'"
  by (auto simp: solutionAssign_Returns keepsOnes_def solutionAt_update)

lemma assign_at: "solutionAssign s i v = Returns s' \<Longrightarrow> solutionAt s' i = Returns v"
  by (auto simp: solutionAssign_Returns solutionAt_update)

lemma countActive_agree:
  "\<forall>l \<in> set ls. solutionAt s' (getOpenGMVariableId (variable l)) = solutionAt s (getOpenGMVariableId (variable l))
   \<Longrightarrow> countActive ls s' = countActive ls s"
  by (induction ls) simp_all

lemma link_protected:
  "(k, l) \<in> set (linkingHypotheses m) \<Longrightarrow> getOpenGMVariableId (variable l) \<in> protected m"
  by (force simp: protected_def linkIds_def)

lemma detection_protected:
  "(i, h) \<in> set (segmentationHypotheses m) \<Longrightarrow> getOpenGMVariableId (detection h) \<in> protected m"
  by (force simp: protected_def detectionIds_def)

lemma incoming_agree:
  "agreeOn m s s' \<Longrightarrow> getNumActiveIncomingLinks m i s' = getNumActiveIncomingLinks m i s"
  unfolding getNumActiveIncomingLinks_def incomingLinks_def
  by (rule countActive_agree) (auto simp: agreeOn_def dest: link_protected)

lemma outgoing_agree:
  "agreeOn m s s' \<Longrightarrow> getNumActiveOutgoingLinks m i s' = getNumActiveOutgoingLinks m i s"
  unfolding getNumActiveOutgoingLinks_def outgoingLinks_def
  by (rule countActive_agree) (auto simp: agreeOn_def dest: link_protected)

lemma isActive_agree:
  "agreeOn m s s' \<Longrightarrow> x \<in> set (segmentationHypotheses m) \<Longrightarrow>
   isActive s' (detection (snd x)) = isActive s (detection (snd x))"
  by (cases x) (auto simp: isActive_def agreeOn_def dest: detection_protected)

lemma needs_agree:
  assumes "agreeOn m s s'" "x \<in> set (segmentationHypotheses m)"
  shows "needsAppearance m s' x = needsAppearance m s x"
    and "needsDisappearance m s' x = needsDisappearance m s x"
    and "lacksAppearance m s' x = lacksAppearance m s x"
    and "lacksDisappearance m s' x = lacksDisappearance m s x"
  using assms
  by (simp_all add: needsAppearance_def needsDisappearance_def lacksAppearance_def
      lacksDisappearance_def isActive_agree incoming_agree outgoing_agree)

lemma wellBuilt_detection:
  "wellBuilt m \<Longrightarrow> (i, h) \<in> set (segmentationHypotheses m) \<Longrightarrow>
   0 \<le> getOpenGMVariableId (detection h) \<and> nat (getOpenGMVariableId (detection h)) < numberOfVariables m"
  by (force simp: wellBuilt_def detectionIds_def)

lemma wellBuilt_link:
  "wellBuilt m \<Longrightarrow> (k, l) \<in> set (linkingHypotheses m) \<Longrightarrow>
   0 \<le> getOpenGMVariableId (variable l) \<and> nat (getOpenGMVariableId (variable l)) < numberOfVariables m"
  by (force simp: wellBuilt_def linkIds_def)

lemma wellBuilt_appearance:
  assumes "wellBuilt m" "(i, h) \<in> set (segmentationHypotheses m)" "isPresent (appearance h)"
  shows "0 \<le> getOpenGMVariableId (appearance h)"
    and "nat (getOpenGMVariableId (appearance h)) < numberOfVariables m"
    and "getOpenGMVariableId (appearance h) \<notin> protected m"
proof -
  let ?a = "getOpenGMVariableId (appearance h)"
  have mem: "?a \<in> set (appearanceIds m)"
    using assms(2) by (force simp: appearanceIds_def)
  have ne: "?a \<noteq> -1" using assms(3) by (simp add: isPresent_def)
  from assms(1) mem ne show "0 \<le> ?a" "nat ?a < numberOfVariables m"
    by (auto simp: wellBuilt_def)
  from assms(1) have "distinct (filter (\<lambda>i. i \<noteq> -1)
           (linkIds m @ detectionIds m @ divisionIds m @ appearanceIds m @ disappearanceIds m))"
    by (simp add: wellBuilt_def)
  with mem ne show "?a \<notin> protected m"
    by (auto simp: protected_def)
qed

lemma wellBuilt_disappearance:
  assumes "wellBuilt m" "(i, h) \<in> set (segmentationHypotheses m)" "isPresent (disappearance h)"
  shows "0 \<le> getOpenGMVariableId (disappearance h)"
    and "nat (getOpenGMVariableId (disappearance h)) < numberOfVariables m"
    and "getOpenGMVariableId (disappearance h) \<notin> protected m"
proof -
  let ?a = "getOpenGMVariableId (disappearance h)"
  have mem: "?a \<in> set (disappearanceIds m)"
    using assms(2) by (force simp: disappearanceIds_def)
  have ne: "?a \<noteq> -1" using assms(3) by (simp add: isPresent_def)
  from assms(1) mem ne show "0 \<le> ?a" "nat ?a < numberOfVariables m"
    by (auto simp: wellBuilt_def)
  from assms(1) have "distinct (filter (\<lambda>i. i \<noteq> -1)
           (linkIds m @ detectionIds m @ divisionIds m @ appearanceIds m @ disappearanceIds m))"
    by (simp add: wellBuilt_def)
  with mem ne show "?a \<notin> protected m"
    by (auto simp: protected_def)
qed

lemma countActive_total:
  "\<forall>l \<in> set ls. 0 \<le> getOpenGMVariableId (variable l) \<and> nat (getOpenGMVariableId (variable l)) < length s
   \<Longrightarrow> \<exists>k. countActive ls s = Returns k"
  by (induction ls) (auto simp: solutionAt_def)

lemma incoming_total:
  "wellBuilt m \<Longrightarrow> length s = numberOfVariables m \<Longrightarrow> \<exists>k. getNumActiveIncomingLinks m i s = Returns k"
  unfolding getNumActiveIncomingLinks_def incomingLinks_def
  by (rule countActive_total) (auto dest: wellBuilt_link)

lemma outgoing_total:
  "wellBuilt m \<Longrightarrow> length s = numberOfVariables m \<Longrightarrow> \<exists>k. getNumActiveOutgoingLinks m i s = Returns k"
  unfolding getNumActiveOutgoingLinks_def outgoingLinks_def
  by (rule countActive_total) (auto dest: wellBuilt_link)

lemma closeAppearance_cases:
  assumes wb: "wellBuilt m" and mem: "(i, h) \<in> set (segmentationHypotheses m)"
    and len: "length s = numberOfVariables m"
  shows "(getNumActiveIncomingLinks m i s = Returns 0 \<and> \<not> isPresent (appearance h)
            \<and> closeAppearance m i h s = Throws (noAppearanceFeatures i))
         \<or> (\<not> (getNumActiveIncomingLinks m i s = Returns 0 \<and> \<not> isPresent (appearance h))
            \<and> (\<exists>s'. closeAppearance m i h s = Returns s' \<and> agreeOn m s s' \<and> keepsOnes s s'
                  \<and> (getNumActiveIncomingLinks m i s = Returns 0 \<longrightarrow>
                       solutionAt s' (getOpenGMVariableId (appearance h)) = Returns 1)))"
proof -
  obtain k where k: "getNumActiveIncomingLinks m i s = Returns k"
    using incoming_total [OF wb len] by blast
  show ?thesis
  proof (cases "k = 0")
    case False
    then show ?thesis by (simp add: closeAppearance_def k)
  next
    case True
    show ?thesis
    proof (cases "isPresent (appearance h)")
      case False
      then show ?thesis using True by (simp add: closeAppearance_def k isPresent_def)
    next
      case present: True
      note a = wellBuilt_appearance [OF wb mem present]
      let ?s' = "s[nat (getOpenGMVariableId (appearance h)) := 1]"
      have asg: "solutionAssign s (getOpenGMVariableId (appearance h)) 1 = Returns ?s'"
        using a len by (simp add: solutionAssign_def)
      have "closeAppearance m i h s = Returns ?s'"
        using True present asg by (simp add: closeAppearance_def k isPresent_def)
      then show ?thesis
        using present assign_agreeOn [OF asg a(3)] assign_keepsOnes [OF asg] assign_at [OF asg]
        by simp
    qed
  qed
qed

lemma closeDisappearance_cases:
  assumes wb: "wellBuilt m" and mem: "(i, h) \<in> set (segmentationHypotheses m)"
    and len: "length s = numberOfVariables m"
  shows "(getNumActiveOutgoingLinks m i s = Returns 0 \<and> \<not> isPresent (disappearance h)
            \<and> closeDisappearance m i h s = Throws (noDisappearanceFeatures i))
         \<or> (\<not> (getNumActiveOutgoingLinks m i s = Returns 0 \<and> \<not> isPresent (disappearance h))
            \<and> (\<exists>s'. closeDisappearance m i h s = Returns s' \<and> agreeOn m s s' \<and> keepsOnes s s'
                  \<and> (getNumActiveOutgoingLinks m i s = Returns 0 \<longrightarrow>
                       solutionAt s' (getOpenGMVariableId (disappearance h)) = Returns 1)))"
proof -
  obtain k where k: "getNumActiveOutgoingLinks m i s = Returns k"
    using outgoing_total [OF wb len] by blast
  show ?thesis
  proof (cases "k = 0")
    case False
    then show ?thesis by (simp add: closeDisappearance_def k)
  next
    case True
    show ?thesis
    proof (cases "isPresent (disappearance h)")
      case False
      then show ?thesis using True by (simp add: closeDisappearance_def k isPresent_def)
    next
      case present: True
      note a = wellBuilt_disappearance [OF wb mem present]
      let ?s' = "s[nat (getOpenGMVariableId (disappearance h)) := 1]"
      have asg: "solutionAssign s (getOpenGMVariableId (disappearance h)) 1 = Returns ?s'"
        using a len by (simp add: solutionAssign_def)
      have "closeDisappearance m i h s = Returns ?s'"
        using True present asg by (simp add: closeDisappearance_def k isPresent_def)
      then show ?thesis
        using present assign_agreeOn [OF asg a(3)] assign_keepsOnes [OF asg] assign_at [OF asg]
        by simp
    qed
  qed
qed

lemma closeHypothesis_cases:
  assumes wb: "wellBuilt m" and mem: "(i, h) \<in> set (segmentationHypotheses m)"
    and len: "length s = numberOfVariables m"
  shows "(lacksAppearance m s (i, h) \<and> closeHypothesis m i h s = Throws (noAppearanceFeatures i))
       \<or> (\<not> lacksAppearance m s (i, h) \<and> lacksDisappearance m s (i, h)
            \<and> closeHypothesis m i h s = Throws (noDisappearanceFeatures i))
       \<or> (\<not> lacksAppearance m s (i, h) \<and> \<not> lacksDisappearance m s (i, h)
            \<and> (\<exists>s'. closeHypothesis m i h s = Returns s' \<and> agreeOn m s s' \<and> keepsOnes s s'
                  \<and> (needsAppearance m s (i, h) \<longrightarrow> isPresent (appearance h)
                        \<and> solutionAt s' (getOpenGMVariableId (appearance h)) = Returns 1)
                  \<and> (needsDisappearance m s (i, h) \<longrightarrow> isPresent (disappearance h)
                        \<and> solutionAt s' (getOpenGMVariableId (disappearance h)) = Returns 1)))"
proof -
  obtain d where d: "solutionAt s (getOpenGMVariableId (detection h)) = Returns d"
    using wellBuilt_detection [OF wb mem] len by (simp add: solutionAt_def)
  show ?thesis
  proof (cases "d > 0")
    case False
    then have "\<not> isActive s (detection h)" by (simp add: isActive_def d)
    then show ?thesis
      using False
      by (simp add: closeHypothesis_def d lacksAppearance_def lacksDisappearance_def
          needsAppearance_def needsDisappearance_def)
  next
    case True
    then have act: "isActive s (detection h)" by (simp add: isActive_def d)
    have ch: "closeHypothesis m i h s = andThen (closeAppearance m i h s) (closeDisappearance m i h)"
      using True by (simp add: closeHypothesis_def d)
    from closeAppearance_cases [OF wb mem len] show ?thesis
    proof (elim disjE conjE exE)
      assume "getNumActiveIncomingLinks m i s = Returns 0" "\<not> isPresent (appearance h)"
        "closeAppearance m i h s = Throws (noAppearanceFeatures i)"
      then show ?thesis
        using act by (simp add: ch lacksAppearance_def needsAppearance_def)
    next
      fix s1
      assume na: "\<not> (getNumActiveIncomingLinks m i s = Returns 0 \<and> \<not> isPresent (appearance h))"
        and s1: "closeAppearance m i h s = Returns s1" "agreeOn m s s1" "keepsOnes s s1"
        and app1: "getNumActiveIncomingLinks m i s = Returns 0 \<longrightarrow>
                     solutionAt s1 (getOpenGMVariableId (appearance h)) = Returns 1"
      have len1: "length s1 = numberOfVariables m" using s1(2) len by (simp add: agreeOn_def)
      have out1: "getNumActiveOutgoingLinks m i s1 = getNumActiveOutgoingLinks m i s"
        by (rule outgoing_agree [OF s1(2)])
      have nla: "\<not> lacksAppearance m s (i, h)"
        using na by (auto simp: lacksAppearance_def needsAppearance_def)
      from closeDisappearance_cases [OF wb mem len1] show ?thesis
      proof (elim disjE conjE exE)
        assume "getNumActiveOutgoingLinks m i s1 = Returns 0" "\<not> isPresent (disappearance h)"
          "closeDisappearance m i h s1 = Throws (noDisappearanceFeatures i)"
        then show ?thesis
          using act nla s1(1) out1
          by (simp add: ch lacksDisappearance_def needsDisappearance_def)
      next
        fix s2
        assume nd: "\<not> (getNumActiveOutgoingLinks m i s1 = Returns 0 \<and> \<not> isPresent (disappearance h))"
          and s2: "closeDisappearance m i h s1 = Returns s2" "agreeOn m s1 s2" "keepsOnes s1 s2"
          and dis2: "getNumActiveOutgoingLinks m i s1 = Returns 0 \<longrightarrow>
                     solutionAt s2 (getOpenGMVariableId (disappearance h)) = Returns 1"
        have nld: "\<not> lacksDisappearance m s (i, h)"
          using nd out1 by (auto simp: lacksDisappearance_def needsDisappearance_def)
        have r: "closeHypothesis m i h s = Returns s2" by (simp add: ch s1(1) s2(1))
        have a: "needsAppearance m s (i, h) \<longrightarrow> isPresent (appearance h)
                        \<and> solutionAt s2 (getOpenGMVariableId (appearance h)) = Returns 1"
          using na app1 s2(3) by (auto simp: needsAppearance_def keepsOnes_def)
        have b: "needsDisappearance m s (i, h) \<longrightarrow> isPresent (disappearance h)
                        \<and> solutionAt s2 (getOpenGMVariableId (disappearance h)) = Returns 1"
          using nd dis2 out1 by (auto simp: needsDisappearance_def)
        show ?thesis
          using nla nld r a b agreeOn_trans [OF s1(2) s2(2)] keepsOnes_trans [OF s1(3) s2(3)]
          by blast
      qed
    qed
  qed
qed

lemma closeTracks_cases:
  assumes wb: "wellBuilt m"
  shows "set xs \<subseteq> set (segmentationHypotheses m) \<Longrightarrow> length s = numberOfVariables m \<Longrightarrow>
     (\<exists>pre x post. xs = pre @ x # post \<and> (\<forall>y \<in> set pre. lacksNothing m s y)
          \<and> failsAt m s x (closeTracks m xs s))
     \<or> ((\<forall>y \<in> set xs. lacksNothing m s y)
         \<and> (\<exists>s'. closeTracks m xs s = Returns s' \<and> agreeOn m s s' \<and> keepsOnes s s'
               \<and> (\<forall>y \<in> set xs. closed m s' y)))"
proof (induction xs arbitrary: s)
  case Nil
  show ?case by simp
next
  case (Cons x xs)
  obtain i h where x: "x = (i, h)" by (cases x)
  have mem: "(i, h) \<in> set (segmentationHypotheses m)" using Cons.prems(1) x by simp
  have sub: "set xs \<subseteq> set (segmentationHypotheses m)" using Cons.prems(1) by simp
  note len = Cons.prems(2)
  from closeHypothesis_cases [OF wb mem len] show ?case
  proof (elim disjE conjE exE)
    assume "lacksAppearance m s (i, h)" "closeHypothesis m i h s = Throws (noAppearanceFeatures i)"
    then have "failsAt m s x (closeTracks m (x # xs) s)" by (simp add: failsAt_def x)
    then have "x # xs = [] @ x # xs \<and> (\<forall>y \<in> set []. lacksNothing m s y)
                 \<and> failsAt m s x (closeTracks m (x # xs) s)" by simp
    then show ?thesis by blast
  next
    assume "\<not> lacksAppearance m s (i, h)" "lacksDisappearance m s (i, h)"
      "closeHypothesis m i h s = Throws (noDisappearanceFeatures i)"
    then have "failsAt m s x (closeTracks m (x # xs) s)" by (simp add: failsAt_def x)
    then have "x # xs = [] @ x # xs \<and> (\<forall>y \<in> set []. lacksNothing m s y)
                 \<and> failsAt m s x (closeTracks m (x # xs) s)" by simp
    then show ?thesis by blast
  next
    fix s1
    assume ok: "\<not> lacksAppearance m s (i, h)" "\<not> lacksDisappearance m s (i, h)"
      and s1: "closeHypothesis m i h s = Returns s1" "agreeOn m s s1" "keepsOnes s s1"
      and app: "needsAppearance m s (i, h) \<longrightarrow> isPresent (appearance h)
                  \<and> solutionAt s1 (getOpenGMVariableId (appearance h)) = Returns 1"
      and dis: "needsDisappearance m s (i, h) \<longrightarrow> isPresent (disappearance h)
                  \<and> solutionAt s1 (getOpenGMVariableId (disappearance h)) = Returns 1"
    have len1: "length s1 = numberOfVariables m" using s1(2) len by (simp add: agreeOn_def)
    have step: "closeTracks m (x # xs) s = closeTracks m xs s1" by (simp add: x s1(1))
    have okx: "lacksNothing m s x" using ok by (simp add: lacksNothing_def x)
    have same: "lacksNothing m s1 y = lacksNothing m s y" "failsAt m s1 y r = failsAt m s y r"
      if "y \<in> set (segmentationHypotheses m)" for y r
      using needs_agree [OF s1(2) that] by (simp_all add: lacksNothing_def failsAt_def)
    from Cons.IH [OF sub len1] show ?thesis
    proof (elim disjE conjE exE)
      fix pre y post
      assume xs: "xs = pre @ y # post" and pre: "\<forall>z \<in> set pre. lacksNothing m s1 z"
        and f: "failsAt m s1 y (closeTracks m xs s1)"
      have "y \<in> set (segmentationHypotheses m)" using sub xs by auto
      then have f': "failsAt m s y (closeTracks m (x # xs) s)" using f same(2) step by simp
      have "\<forall>z \<in> set (x # pre). lacksNothing m s z"
        using pre okx same(1) sub xs by auto
      then have "x # xs = (x # pre) @ y # post \<and> (\<forall>z \<in> set (x # pre). lacksNothing m s z)
                   \<and> failsAt m s y (closeTracks m (x # xs) s)"
        using xs f' by simp
      then show ?thesis by blast
    next
      fix s'
      assume all: "\<forall>y \<in> set xs. lacksNothing m s1 y"
        and s': "closeTracks m xs s1 = Returns s'" "agreeOn m s1 s'" "keepsOnes s1 s'"
        and cl: "\<forall>y \<in> set xs. closed m s' y"
      have ag: "agreeOn m s s'" by (rule agreeOn_trans [OF s1(2) s'(2)])
      have "closed m s' x"
        using needs_agree(1,2) [OF ag, of x] mem app dis s'(3)
        by (auto simp: closed_def x keepsOnes_def)
      moreover have "\<forall>y \<in> set (x # xs). lacksNothing m s y"
        using all okx same(1) sub by auto
      ultimately show ?thesis
        using step s'(1) ag keepsOnes_trans [OF s1(3) s'(3)] cl by auto
    qed
  qed
qed

lemma markSource_length: "markSource m a s = Returns s' \<Longrightarrow> length s' = length s"
  by (auto simp: markSource_def andThen_Returns_iff solutionAssign_Returns
      split: if_splits option.splits)

lemma markSources_length: "markSources m anns s = Returns s' \<Longrightarrow> length s' = length s"
  by (induction anns arbitrary: s) (auto simp: andThen_Returns_iff dest: markSource_length)

lemma markTarget_length: "markTarget m a s = Returns s' \<Longrightarrow> length s' = length s"
  by (auto simp: markTarget_def solutionAssign_Returns split: if_splits)

lemma markTargets_length: "markTargets m anns s = Returns s' \<Longrightarrow> length s' = length s"
  by (induction anns arbitrary: s) (auto simp: andThen_Returns_iff dest: markTarget_length)

lemma markLinks_length:
  assumes "markLinks m anns = Returns s"
  shows "length s = numberOfVariables m"
proof -
  from assms obtain s1 where s1: "markSources m anns (replicate (numberOfVariables m) 0) = Returns s1"
    and s: "markTargets m anns s1 = Returns s"
    by (auto simp: markLinks_def andThen_Returns_iff)
  from markSources_length [OF s1] markTargets_length [OF s] show ?thesis by simp
qed

section \<open>Reconstruction: the order of the annotations\<close>

lemma markSource_markIds:
  "val a \<Longrightarrow> map_of (linkingHypotheses m) (src a, dest a) = Some hyp \<Longrightarrow>
   markSource m a s =
     markIds (getOpenGMVariableId (variable hyp))
             (getOpenGMVariableId (detection (segmentationAt m (src a))))
             (getOpenGMVariableId (division (segmentationAt m (src a)))) s"
  by (auto simp: markSource_def markIds_def andThen_def split: outcome.splits)

lemma solution_eqI:
  assumes "length t = length t'" and "\<And>i. solutionAt t i = solutionAt t' i"
  shows "t = t'"
proof (rule nth_equalityI)
  show "length t = length t'" by fact
next
  fix j assume j: "j < length t"
  from assms(2) [of "int j"] j assms(1) show "t ! j = t' ! j"
    by (simp add: solutionAt_def)
qed

lemma markIds_Returns:
  assumes "l \<noteq> d"
  shows "markIds l d v s = Returns t \<longleftrightarrow>
     0 \<le> l \<and> nat l < length s \<and> 0 \<le> d \<and> nat d < length s
     \<and> (if s ! nat d = 1 then 0 \<le> v \<and> nat v < length s \<and> t = s[nat l := 1, nat v := 1]
         else t = s[nat l := 1, nat d := 1])"
proof -
  have rd: "solutionAt (s[nat l := 1]) d = solutionAt s d" if "0 \<le> l"
    using that assms by (simp add: solutionAt_update)
  show ?thesis
    using rd
    by (auto simp: markIds_def andThen_Returns_iff solutionAssign_Returns solutionAt_def
        split: if_splits)
qed

lemma markIds_as_updates:
  assumes "l \<noteq> d"
  shows "markIds l d v s = Returns t \<longleftrightarrow>
     0 \<le> l \<and> nat l < length s \<and> 0 \<le> d \<and> nat d < length s
     \<and> 0 \<le> (if s ! nat d = 1 then v else d) \<and> nat (if s ! nat d = 1 then v else d) < length s
     \<and> t = s[nat l := 1, nat (if s ! nat d = 1 then v else d) := 1]"
  using markIds_Returns [OF assms, of v s t] by auto

lemma nth_update_any: "xs[i := x] ! j = (if i = j \<and> i < length xs then x else xs ! j)"
  by (cases "i < length xs") (auto simp: nth_list_update list_update_beyond)

lemma updates_swap_pairs:
  "xs[a := x, b := x, c := x, e := x] = xs[c := x, e := x, a := x, b := x]"
  by (rule nth_equalityI) (auto simp: nth_update_any)

lemma updates_swap_outer:
  "xs[a := x, b := x, c := x, e := x] = xs[c := x, b := x, a := x, e := x]"
  by (rule nth_equalityI) (auto simp: nth_update_any)

lemma markIds_commute:
  assumes apart: "d \<notin> {l, l', v, v'}" "d' \<notin> {l, l', v, v'}" and same: "d = d' \<longrightarrow> v = v'"
    and run: "andThen (markIds l d v s) (markIds l' d' v') = Returns t"
  shows "andThen (markIds l' d' v' s) (markIds l d v) = Returns t"
proof -
  have ne: "l \<noteq> d" "l' \<noteq> d'" "l' \<noteq> d" "l \<noteq> d'" "v \<noteq> d" "v' \<noteq> d'" "v \<noteq> d'" "v' \<noteq> d"
    using apart by auto
  from run obtain s1 where s1: "markIds l d v s = Returns s1" and t: "markIds l' d' v' s1 = Returns t"
    by (auto simp: andThen_Returns_iff)
  define w where "w = (if s ! nat d = 1 then v else d)"
  define w' where "w' = (if s1 ! nat d' = 1 then v' else d')"
  from s1 have b: "0 \<le> l" "nat l < length s" "0 \<le> d" "nat d < length s" "0 \<le> w" "nat w < length s"
    and s1_eq: "s1 = s[nat l := 1, nat w := 1]"
    unfolding markIds_as_updates [OF ne(1)] w_def by simp_all
  have len1: "length s1 = length s" by (simp add: s1_eq)
  from t have b': "0 \<le> l'" "nat l' < length s" "0 \<le> d'" "nat d' < length s" "0 \<le> w'" "nat w' < length s"
    and t_eq: "t = s1[nat l' := 1, nat w' := 1]"
    unfolding markIds_as_updates [OF ne(2)] w'_def len1 by simp_all
  have nat_ne: "nat x \<noteq> nat y" if "x \<noteq> y" "0 \<le> x" "0 \<le> y" for x y :: int
    using that by simp
  show ?thesis
  proof (cases "d = d'")
    case False
    have "w \<noteq> d'" using ne False by (simp add: w_def)
    then have rd': "s1 ! nat d' = s ! nat d'"
      using b b' ne by (simp add: s1_eq nat_ne)
    then have w'_s: "w' = (if s ! nat d' = 1 then v' else d')" by (simp add: w'_def)
    let ?s2 = "s[nat l' := 1, nat w' := 1]"
    have first: "markIds l' d' v' s = Returns ?s2"
      unfolding markIds_as_updates [OF ne(2)] using b' w'_s by simp
    have "w' \<noteq> d" using ne False by (auto simp: w'_def)
    then have rd: "?s2 ! nat d = s ! nat d"
      using b b' ne by (simp add: nat_ne)
    have second: "markIds l d v ?s2 = Returns (?s2[nat l := 1, nat w := 1])"
      unfolding markIds_as_updates [OF ne(1)] using b rd by (simp add: w_def)
    have "?s2[nat l := 1, nat w := 1] = t"
      unfolding t_eq s1_eq by (rule updates_swap_pairs)
    with first second show ?thesis by simp
  next
    case True
    with same have vv: "v' = v" by simp
    show ?thesis
    proof (cases "s ! nat d = 1")
      case one: True
      then have w: "w = v" by (simp add: w_def)
      have "s1 ! nat d = 1"
        using b ne one w by (simp add: s1_eq nat_ne)
      then have w': "w' = v" using True vv by (simp add: w'_def)
      let ?s2 = "s[nat l' := 1, nat v := 1]"
      have first: "markIds l' d' v' s = Returns ?s2"
        unfolding markIds_as_updates [OF ne(2)] using b b' one True vv w by simp
      have rd: "?s2 ! nat d = 1"
        using b b' ne one w True by (simp add: nat_ne)
      have second: "markIds l d v ?s2 = Returns (?s2[nat l := 1, nat v := 1])"
        unfolding markIds_as_updates [OF ne(1)] using b rd w by simp
      have "?s2[nat l := 1, nat v := 1] = t"
        unfolding t_eq s1_eq w w' by (rule updates_swap_pairs)
      with first second show ?thesis by simp
    next
      case other: False
      then have w: "w = d" by (simp add: w_def)
      have "s1 ! nat d = 1"
        using b by (simp add: s1_eq w)
      then have w': "w' = v" using True vv by (simp add: w'_def)
      let ?s2 = "s[nat l' := 1, nat d := 1]"
      have first: "markIds l' d' v' s = Returns ?s2"
        unfolding markIds_as_updates [OF ne(2)] using b b' other True by simp
      have rd: "?s2 ! nat d = 1"
        using b by simp
      have second: "markIds l d v ?s2 = Returns (?s2[nat l := 1, nat v := 1])"
        unfolding markIds_as_updates [OF ne(1)] using b b' rd w' by simp
      have "?s2[nat l := 1, nat v := 1] = t"
        unfolding t_eq s1_eq w w' by (rule updates_swap_outer)
      with first second show ?thesis by simp
    qed
  qed
qed

lemma markSources_sequence: "markSources m xs s = sequence (markSource m) xs s"
proof (induction xs arbitrary: s)
  case Nil
  show ?case by simp
next
  case (Cons x xs)
  have "markSources m xs = sequence (markSource m) xs" by (rule ext) (rule Cons.IH)
  then show ?case by simp
qed

lemma markTargets_sequence: "markTargets m xs s = sequence (markTarget m) xs s"
proof (induction xs arbitrary: s)
  case Nil
  show ?case by simp
next
  case (Cons x xs)
  have "markTargets m xs = sequence (markTarget m) xs" by (rule ext) (rule Cons.IH)
  then show ?case by simp
qed

lemma sequence_Cons_Returns:
  "sequence f (x # xs) s = Returns t \<longleftrightarrow> (\<exists>s1. f x s = Returns s1 \<and> sequence f xs s1 = Returns t)"
  by (simp add: andThen_Returns_iff)

lemma sequence_to_front:
  assumes swap: "\<And>a b s t. andThen (f a s) (f b) = Returns t \<Longrightarrow> andThen (f b s) (f a) = Returns t"
  shows "sequence f (ys @ x # zs) s = Returns t \<longleftrightarrow> sequence f (x # ys @ zs) s = Returns t"
proof (induction ys arbitrary: s)
  case Nil
  show ?case by simp
next
  case (Cons y ys)
  have two: "(\<exists>s1. f y s = Returns s1 \<and> (\<exists>s2. f x s1 = Returns s2 \<and> P s2))
             \<longleftrightarrow> (\<exists>s1. f x s = Returns s1 \<and> (\<exists>s2. f y s1 = Returns s2 \<and> P s2))" for P
  proof
    assume "\<exists>s1. f y s = Returns s1 \<and> (\<exists>s2. f x s1 = Returns s2 \<and> P s2)"
    then obtain s1 s2 where "f y s = Returns s1" "f x s1 = Returns s2" "P s2" by blast
    then have "andThen (f y s) (f x) = Returns s2" by simp
    from swap [OF this] \<open>P s2\<close> show "\<exists>s1. f x s = Returns s1 \<and> (\<exists>s2. f y s1 = Returns s2 \<and> P s2)"
      by (auto simp: andThen_Returns_iff)
  next
    assume "\<exists>s1. f x s = Returns s1 \<and> (\<exists>s2. f y s1 = Returns s2 \<and> P s2)"
    then obtain s1 s2 where "f x s = Returns s1" "f y s1 = Returns s2" "P s2" by blast
    then have "andThen (f x s) (f y) = Returns s2" by simp
    from swap [OF this] \<open>P s2\<close> show "\<exists>s1. f y s = Returns s1 \<and> (\<exists>s2. f x s1 = Returns s2 \<and> P s2)"
      by (auto simp: andThen_Returns_iff)
  qed
  have "sequence f ((y # ys) @ x # zs) s = Returns t
          \<longleftrightarrow> (\<exists>s1. f y s = Returns s1 \<and> sequence f (ys @ x # zs) s1 = Returns t)"
    by (simp add: andThen_Returns_iff)
  also have "\<dots> \<longleftrightarrow> (\<exists>s1. f y s = Returns s1 \<and> sequence f (x # ys @ zs) s1 = Returns t)"
    using Cons.IH by simp
  also have "\<dots> \<longleftrightarrow> (\<exists>s1. f y s = Returns s1
                          \<and> (\<exists>s2. f x s1 = Returns s2 \<and> sequence f (ys @ zs) s2 = Returns t))"
    by (simp add: andThen_Returns_iff)
  also have "\<dots> \<longleftrightarrow> (\<exists>s1. f x s = Returns s1
                          \<and> (\<exists>s2. f y s1 = Returns s2 \<and> sequence f (ys @ zs) s2 = Returns t))"
    by (rule two)
  also have "\<dots> \<longleftrightarrow> sequence f (x # (y # ys) @ zs) s = Returns t"
    by (simp add: andThen_Returns_iff)
  finally show ?case .
qed

lemma sequence_mset:
  assumes swap: "\<And>a b s t. andThen (f a s) (f b) = Returns t \<Longrightarrow> andThen (f b s) (f a) = Returns t"
  shows "mset xs = mset ys \<Longrightarrow> sequence f xs s = Returns t \<Longrightarrow> sequence f ys s = Returns t"
proof (induction xs arbitrary: ys s)
  case Nil
  then show ?case by simp
next
  case (Cons x xs)
  have "x \<in> set ys" using Cons.prems(1) by (metis list.set_intros(1) mset_eq_setD)
  then obtain ys1 ys2 where ys: "ys = ys1 @ x # ys2" by (auto dest: split_list)
  with Cons.prems(1) have m: "mset xs = mset (ys1 @ ys2)" by simp
  from Cons.prems(2) obtain s1 where s1: "f x s = Returns s1" "sequence f xs s1 = Returns t"
    by (auto simp: andThen_Returns_iff)
  from Cons.IH [OF m s1(2)] s1(1) have "sequence f (x # ys1 @ ys2) s = Returns t" by simp
  moreover have "sequence f (ys1 @ x # ys2) s = Returns t \<longleftrightarrow> sequence f (x # ys1 @ ys2) s = Returns t"
    by (rule sequence_to_front) (rule swap)
  ultimately show ?case unfolding ys by simp
qed

lemma wellBuilt_distinct:
  "wellBuilt m \<Longrightarrow> distinct (filter (\<lambda>i. i \<noteq> -1)
     (linkIds m @ detectionIds m @ divisionIds m @ appearanceIds m @ disappearanceIds m))"
  by (simp add: wellBuilt_def)

lemma distinct_filter_apart:
  "distinct (filter P (xs @ ys)) \<Longrightarrow> x \<in> set xs \<Longrightarrow> x \<in> set ys \<Longrightarrow> \<not> P x"
  by auto

lemma distinct_filter_rest: "distinct (filter P (xs @ ys)) \<Longrightarrow> distinct (filter P ys)"
  by simp

lemma distinct_filter_first: "distinct (filter P (xs @ ys)) \<Longrightarrow> distinct (filter P xs)"
  by simp

lemma detectionIds_mem:
  "(i, h) \<in> set (segmentationHypotheses m) \<Longrightarrow> getOpenGMVariableId (detection h) \<in> set (detectionIds m)"
  by (force simp: detectionIds_def)

lemma wellBuilt_detection_not_link:
  assumes "wellBuilt m" "(i, h) \<in> set (segmentationHypotheses m)" "(k, l) \<in> set (linkingHypotheses m)"
  shows "getOpenGMVariableId (detection h) \<noteq> getOpenGMVariableId (variable l)"
proof
  assume eq: "getOpenGMVariableId (detection h) = getOpenGMVariableId (variable l)"
  have l: "getOpenGMVariableId (detection h) \<in> set (linkIds m)"
    unfolding eq using assms(3) by (force simp: linkIds_def)
  have d: "getOpenGMVariableId (detection h) \<in> set
      (detectionIds m @ divisionIds m @ appearanceIds m @ disappearanceIds m)"
    using detectionIds_mem [OF assms(2)] by simp
  from distinct_filter_apart [OF wellBuilt_distinct [OF assms(1)] l d]
    wellBuilt_detection [OF assms(1,2)]
  show False by simp
qed

lemma wellBuilt_detection_not_division:
  assumes "wellBuilt m" "(i, h) \<in> set (segmentationHypotheses m)" "(i', h') \<in> set (segmentationHypotheses m)"
  shows "getOpenGMVariableId (detection h) \<noteq> getOpenGMVariableId (division h')"
proof
  assume eq: "getOpenGMVariableId (detection h) = getOpenGMVariableId (division h')"
  have v: "getOpenGMVariableId (detection h) \<in> set
      (divisionIds m @ appearanceIds m @ disappearanceIds m)"
    unfolding eq using assms(3) by (force simp: divisionIds_def)
  from distinct_filter_apart [OF distinct_filter_rest [OF wellBuilt_distinct [OF assms(1)]]
      detectionIds_mem [OF assms(2)] v]
    wellBuilt_detection [OF assms(1,2)]
  show False by simp
qed

lemma wellBuilt_detection_inj:
  assumes "wellBuilt m" "(i, h) \<in> set (segmentationHypotheses m)" "(i', h') \<in> set (segmentationHypotheses m)"
    and "getOpenGMVariableId (detection h) = getOpenGMVariableId (detection h')"
  shows "h = h'"
proof -
  have "\<forall>j \<in> set (detectionIds m). 0 \<le> j"
    using assms(1) by (simp add: wellBuilt_def)
  then have "\<forall>j \<in> set (detectionIds m). j \<noteq> -1" by auto
  then have "filter (\<lambda>i. i \<noteq> -1) (detectionIds m) = detectionIds m" by simp
  with distinct_filter_first [OF distinct_filter_rest [OF wellBuilt_distinct [OF assms(1)]]]
  have "distinct (detectionIds m)" by simp
  then have "inj_on (\<lambda>(i, h). getOpenGMVariableId (detection h)) (set (segmentationHypotheses m))"
    by (simp add: detectionIds_def distinct_map)
  from inj_onD [OF this _ assms(2,3)] assms(4) show ?thesis by simp
qed

lemma segmentationAt_cases:
  "segmentationAt m i = defaultSegmentationHypothesis
   \<or> (i, segmentationAt m i) \<in> set (segmentationHypotheses m)"
  by (auto simp: segmentationAt_def split: option.splits dest: map_of_SomeD)

lemma markIds_detection_in_range:
  "markIds l d v s = Returns t \<Longrightarrow> 0 \<le> d"
  by (auto simp: markIds_def andThen_Returns_iff solutionAt_def split: if_splits)

lemma markSource_swap:
  assumes wb: "wellBuilt m"
    and run: "andThen (markSource m a s) (markSource m b) = Returns t"
  shows "andThen (markSource m b s) (markSource m a) = Returns t"
proof (cases "val a \<and> val b")
  case False
  then have "markSource m a = Returns \<or> markSource m b = Returns"
    by (auto simp: markSource_def fun_eq_iff)
  with run show ?thesis
    by (cases "markSource m b s"; cases "markSource m a s") auto
next
  case True
  from run obtain s1 where s1: "markSource m a s = Returns s1" "markSource m b s1 = Returns t"
    by (auto simp: andThen_Returns_iff)
  from s1(1) True obtain la where la: "map_of (linkingHypotheses m) (src a, dest a) = Some la"
    by (cases "map_of (linkingHypotheses m) (src a, dest a)") (auto simp: markSource_def)
  from s1(2) True obtain lb where lb: "map_of (linkingHypotheses m) (src b, dest b) = Some lb"
    by (cases "map_of (linkingHypotheses m) (src b, dest b)") (auto simp: markSource_def)
  let ?ha = "segmentationAt m (src a)" and ?hb = "segmentationAt m (src b)"
  note ma = markSource_markIds [of a m la] and mb = markSource_markIds [of b m lb]
  have ea: "markSource m a = markIds (getOpenGMVariableId (variable la))
              (getOpenGMVariableId (detection ?ha)) (getOpenGMVariableId (division ?ha))"
    using True la by (simp add: fun_eq_iff ma)
  have eb: "markSource m b = markIds (getOpenGMVariableId (variable lb))
              (getOpenGMVariableId (detection ?hb)) (getOpenGMVariableId (division ?hb))"
    using True lb by (simp add: fun_eq_iff mb)
  have "0 \<le> getOpenGMVariableId (detection ?ha)"
    using s1(1) unfolding ea by (rule markIds_detection_in_range)
  then have ina: "(src a, ?ha) \<in> set (segmentationHypotheses m)"
    using segmentationAt_cases [of m "src a"]
    by (auto simp: defaultSegmentationHypothesis_def defaultVariable_def getOpenGMVariableId_def)
  have "0 \<le> getOpenGMVariableId (detection ?hb)"
    using s1(2) unfolding eb by (rule markIds_detection_in_range)
  then have inb: "(src b, ?hb) \<in> set (segmentationHypotheses m)"
    using segmentationAt_cases [of m "src b"]
    by (auto simp: defaultSegmentationHypothesis_def defaultVariable_def getOpenGMVariableId_def)
  have lka: "((src a, dest a), la) \<in> set (linkingHypotheses m)" using la by (rule map_of_SomeD)
  have lkb: "((src b, dest b), lb) \<in> set (linkingHypotheses m)" using lb by (rule map_of_SomeD)
  have apart_a: "getOpenGMVariableId (detection ?ha) \<notin>
      {getOpenGMVariableId (variable la), getOpenGMVariableId (variable lb),
       getOpenGMVariableId (division ?ha), getOpenGMVariableId (division ?hb)}"
    using wellBuilt_detection_not_link [OF wb ina lka] wellBuilt_detection_not_link [OF wb ina lkb]
      wellBuilt_detection_not_division [OF wb ina ina] wellBuilt_detection_not_division [OF wb ina inb]
    by simp
  have apart_b: "getOpenGMVariableId (detection ?hb) \<notin>
      {getOpenGMVariableId (variable la), getOpenGMVariableId (variable lb),
       getOpenGMVariableId (division ?ha), getOpenGMVariableId (division ?hb)}"
    using wellBuilt_detection_not_link [OF wb inb lka] wellBuilt_detection_not_link [OF wb inb lkb]
      wellBuilt_detection_not_division [OF wb inb ina] wellBuilt_detection_not_division [OF wb inb inb]
    by simp
  have same: "getOpenGMVariableId (detection ?ha) = getOpenGMVariableId (detection ?hb)
      \<longrightarrow> getOpenGMVariableId (division ?ha) = getOpenGMVariableId (division ?hb)"
    using wellBuilt_detection_inj [OF wb ina inb] by auto
  show ?thesis
    using run unfolding ea eb by (rule markIds_commute [OF apart_a apart_b same])
qed

lemma markTarget_swap:
  assumes "andThen (markTarget m a s) (markTarget m b) = Returns t"
  shows "andThen (markTarget m b s) (markTarget m a) = Returns t"
  using assms
  by (auto simp: markTarget_def andThen_Returns_iff solutionAssign_Returns
      intro!: nth_equalityI simp: nth_update_any split: if_splits)

lemma readGTfromJson_mset:
  assumes wb: "wellBuilt m" and m: "mset xs = mset ys"
    and r: "readGTfromJson m xs = Returns sol"
  shows "readGTfromJson m ys = Returns sol"
proof -
  from r obtain s1 s2 where s1: "markSources m xs (replicate (numberOfVariables m) 0) = Returns s1"
    and s2: "markTargets m xs s1 = Returns s2"
    and s3: "closeTracks m (segmentationHypotheses m) s2 = Returns sol"
    by (auto simp: readGTfromJson_def markLinks_def andThen_Returns_iff)
  have "sequence (markSource m) ys (replicate (numberOfVariables m) 0) = Returns s1"
    using m s1 [unfolded markSources_sequence]
    by (rule sequence_mset [rotated]) (rule markSource_swap [OF wb])
  moreover have "sequence (markTarget m) ys s1 = Returns s2"
    using m s2 [unfolded markTargets_sequence]
    by (rule sequence_mset [rotated]) (rule markTarget_swap)
  ultimately show ?thesis
    using s3 by (simp add: readGTfromJson_def markLinks_def markSources_sequence markTargets_sequence)
qed

section \<open>Ground-truth reconstruction: the claims\<close>

text \<open>
  Claim C1, evaluated where one source has three active links. Hypothesis 1 has a
  division Variable and the links (1,2), (1,3) and (1,4) are all annotated true. The second
  link marks the division Variable; the third finds the detection active again and marks
  the division Variable once more. The \<^verbatim>\<open>throw\<close> of ``A source node has been used more
  than once!'' stands in the branch taken when the detection is not active and tests that
  it is active, so it is never reached (\<open>duplicate_use_never_reported\<close>): the
  reconstruction returns a solution.
\<close>

theorem third_link_of_a_source_accepted:
  "readGTfromJson divisionModel [active 1 2, active 1 3, active 1 4]
     = Returns [1, 1, 1, 1, 1, 1, 1, 1, 1, 1, 1, 1]"
  by (simp add: divisionModel_def eval_defs numeral_eq_Suc)

text \<open>
  Claim C4, evaluated where hypothesis 1 has no division Variable and the links (1,2) and
  (1,3) are both annotated true. The second link finds the detection active and writes the
  solution at the division Variable's id, which is \<open>-1\<close>: no test precedes the write and
  nothing is thrown; the write is out of range.
\<close>

theorem division_without_variable_undefined:
  "readGTfromJson noDivisionModel [active 1 2, active 1 3] = Undefined"
  by (simp add: noDivisionModel_def eval_defs)


text \<open>
  Claim C10. Two lists of annotations with the same entries of value true, in the same
  order, give the same outcome: entries with value false can be added and removed at will.
  In a well-built model the order of the entries with value true does not matter either
  to the solution: two lists with the same multiset of such entries return the same
  solutions.
\<close>

theorem false_annotations_ignored:
  "(filter val anns = filter val anns' \<longrightarrow> readGTfromJson m anns = readGTfromJson m anns')
   \<and> (wellBuilt m \<and> mset (filter val anns) = mset (filter val anns') \<longrightarrow>
        (\<forall>sol. readGTfromJson m anns = Returns sol \<longleftrightarrow> readGTfromJson m anns' = Returns sol))"
proof (intro conjI impI allI)
  assume "filter val anns = filter val anns'"
  then show "readGTfromJson m anns = readGTfromJson m anns'"
    by (metis readGTfromJson_filter)
next
  fix sol
  assume a: "wellBuilt m \<and> mset (filter val anns) = mset (filter val anns')"
  have "readGTfromJson m (filter val anns) = Returns sol
          \<longleftrightarrow> readGTfromJson m (filter val anns') = Returns sol"
    using a readGTfromJson_mset [of m "filter val anns" "filter val anns'" sol]
      readGTfromJson_mset [of m "filter val anns'" "filter val anns" sol]
    by auto
  then show "readGTfromJson m anns = Returns sol \<longleftrightarrow> readGTfromJson m anns' = Returns sol"
    by (simp add: readGTfromJson_filter)
qed

text \<open>Entries with value false around the link (1,2), and the two links of the division
  in the other order.\<close>

theorem false_annotations_ignored_witness:
  "filter val [inactive 2 1, active 1 2, inactive 7 7] = filter val [active 1 2]
   \<and> readGTfromJson exampleModel [inactive 2 1, active 1 2, inactive 7 7]
       = readGTfromJson exampleModel [active 1 2]
   \<and> wellBuilt divisionModel
   \<and> mset (filter val [active 1 3, inactive 2 1, active 1 2]) = mset (filter val [active 1 2, active 1 3])
   \<and> readGTfromJson divisionModel [active 1 3, inactive 2 1, active 1 2]
       = Returns [1, 1, 0, 1, 1, 1, 1, 1, 1, 1, 0, 0]"
proof -
  have f: "filter val [inactive 2 1, active 1 2, inactive 7 7] = filter val [active 1 2]"
    by (simp add: active_def inactive_def)
  have p: "mset (filter val [active 1 3, inactive 2 1, active 1 2]) = mset (filter val [active 1 2, active 1 3])"
    by (simp add: active_def inactive_def)
  show ?thesis
    using f p divisionModel_wellBuilt divisionModel_two
      false_annotations_ignored [of "[inactive 2 1, active 1 2, inactive 7 7]" "[active 1 2]" exampleModel]
      false_annotations_ignored [of "[active 1 3, inactive 2 1, active 1 2]" "[active 1 2, active 1 3]" divisionModel]
    by blast
qed

text \<open>
  Claim C3, as amended. In a well-built model, once the two loops over the annotations
  have marked links and detections: a solution that the reconstruction returns has every
  hypothesis closed (an active detection without active incoming link has its appearance
  Variable present and active, and likewise without active outgoing link its disappearance
  Variable); when some hypothesis lacks a Variable it needs, the reconstruction fails at
  the first such hypothesis in id order, with the error that names it (the appearance error
  when both Variables are lacking); and when no hypothesis lacks one, it returns a solution.
\<close>

theorem tracks_closed_or_first_gap_reported:
  assumes "wellBuilt m" and "markLinks m anns = Returns marked"
  shows "(\<forall>sol. readGTfromJson m anns = Returns sol \<longrightarrow>
            (\<forall>x \<in> set (segmentationHypotheses m). closed m sol x))
       \<and> ((\<exists>x \<in> set (segmentationHypotheses m). \<not> lacksNothing m marked x) \<longrightarrow>
            (\<exists>pre x post. segmentationHypotheses m = pre @ x # post
               \<and> (\<forall>y \<in> set pre. lacksNothing m marked y)
               \<and> failsAt m marked x (readGTfromJson m anns)))
       \<and> ((\<forall>x \<in> set (segmentationHypotheses m). lacksNothing m marked x) \<longrightarrow>
            (\<exists>sol. readGTfromJson m anns = Returns sol))"
proof -
  have r: "readGTfromJson m anns = closeTracks m (segmentationHypotheses m) marked"
    by (simp add: readGTfromJson_def assms(2))
  note cases = closeTracks_cases [OF assms(1) subset_refl markLinks_length [OF assms(2)], folded r]
  show ?thesis
  proof (intro conjI allI impI)
    fix sol
    assume "readGTfromJson m anns = Returns sol"
    with cases show "\<forall>x \<in> set (segmentationHypotheses m). closed m sol x"
      by (auto simp: failsAt_def)
  next
    assume "\<exists>x \<in> set (segmentationHypotheses m). \<not> lacksNothing m marked x"
    with cases show "\<exists>pre x post. segmentationHypotheses m = pre @ x # post
               \<and> (\<forall>y \<in> set pre. lacksNothing m marked y)
               \<and> failsAt m marked x (readGTfromJson m anns)"
      by blast
  next
    assume "\<forall>x \<in> set (segmentationHypotheses m). lacksNothing m marked x"
    with cases show "\<exists>sol. readGTfromJson m anns = Returns sol"
      by (auto simp: failsAt_def lacksNothing_def)
  qed
qed

text \<open>The graph with a division closes all its tracks; in the graph of two hypotheses,
  hypothesis 1 starts a track and has no appearance Variable.\<close>

theorem tracks_closed_or_first_gap_reported_witness:
  "(wellBuilt divisionModel
      \<and> markLinks divisionModel [active 1 2, active 1 3] = Returns [1, 1, 0, 1, 1, 0, 1, 0, 1, 0, 0, 0]
      \<and> readGTfromJson divisionModel [active 1 2, active 1 3] = Returns [1, 1, 0, 1, 1, 1, 1, 1, 1, 1, 0, 0]
      \<and> list_all (closed divisionModel [1, 1, 0, 1, 1, 1, 1, 1, 1, 1, 0, 0])
            (segmentationHypotheses divisionModel))
   \<and> (wellBuilt exampleModel
      \<and> markLinks exampleModel [active 1 2] = Returns [1, 1, 1, 0]
      \<and> (\<exists>x \<in> set (segmentationHypotheses exampleModel). \<not> lacksNothing exampleModel [1, 1, 1, 0] x)
      \<and> (\<exists>pre x post. segmentationHypotheses exampleModel = pre @ x # post
               \<and> (\<forall>y \<in> set pre. lacksNothing exampleModel [1, 1, 1, 0] y)
               \<and> failsAt exampleModel [1, 1, 1, 0] x (readGTfromJson exampleModel [active 1 2])))"
proof -
  have g: "\<exists>x \<in> set (segmentationHypotheses exampleModel). \<not> lacksNothing exampleModel [1, 1, 1, 0] x"
    using exampleModel_gap by (simp add: exampleModel_defs)
  show ?thesis
    using g divisionModel_wellBuilt divisionModel_marked divisionModel_two
      exampleModel_wellBuilt exampleModel_marked
      tracks_closed_or_first_gap_reported [OF divisionModel_wellBuilt divisionModel_marked]
      tracks_closed_or_first_gap_reported [OF exampleModel_wellBuilt exampleModel_marked]
    unfolding list_all_iff by blast
qed

text \<open>
  Claim C3 as stated fails where two hypotheses lack a Variable: in the graph of two
  hypotheses with the link (1,2) annotated true, hypothesis 2 has an active detection, no
  active outgoing link and no disappearance Variable, and the error that is raised names
  hypothesis 1, whose appearance Variable is missing.
\<close>

theorem second_gap_not_reported:
  "lacksDisappearance exampleModel [1, 1, 1, 0] (2, hypothesisTwo)
   \<and> markLinks exampleModel [active 1 2] = Returns [1, 1, 1, 0]
   \<and> readGTfromJson exampleModel [active 1 2]
       = Throws ''Segmentation Hypothesis: 1 - GT contains appearing variable that has no appearance features set!''
   \<and> readGTfromJson exampleModel [active 1 2] \<noteq> Throws (noDisappearanceFeatures 2)"
proof -
  have a: "lacksDisappearance exampleModel [1, 1, 1, 0] (2, hypothesisTwo)"
    by (simp add: lacksDisappearance_def needsDisappearance_def isActive_def isPresent_def
        exampleModel_defs eval_defs)
  have b: "readGTfromJson exampleModel [active 1 2]
       = Throws ''Segmentation Hypothesis: 1 - GT contains appearing variable that has no appearance features set!''"
    by (simp add: exampleModel_defs eval_defs noAppearanceFeatures_def show_int_small numeral_eq_Suc)
  have c: "readGTfromJson exampleModel [active 1 2] \<noteq> Throws (noDisappearanceFeatures 2)"
    by (simp add: b noDisappearanceFeatures_def show_int_small)
  from a exampleModel_marked b c show ?thesis by blast
qed

section \<open>Verification\<close>

lemma verifyExclusions_eq:
  "verifyExclusions exclusionOk m sol cs (valid, out) =
     (valid \<and> (\<forall>c \<in> set cs. exclusionOk c sol (segmentationHypotheses m)),
      out @ map (\<lambda>c. violatedExclusion)
                (filter (\<lambda>c. \<not> exclusionOk c sol (segmentationHypotheses m)) cs))"
  by (induction cs arbitrary: valid out) auto

lemma verifySegmentations_eq:
  "verifySegmentations hypothesisOk sol xs (valid, out) =
     (valid \<and> (\<forall>(i, h) \<in> set xs. hypothesisOk h sol),
      out @ map (\<lambda>x. violatedConservation) (filter (\<lambda>(i, h). \<not> hypothesisOk h sol) xs))"
  by (induction xs arbitrary: valid out) auto

text \<open>
  Claim C9. For any two checks, \<open>verifySolution\<close> returns true exactly when every
  exclusion constraint and every segmentation hypothesis passes its check, and it writes
  one line for each constraint and each hypothesis that fails: none is skipped after a
  violation.
\<close>

theorem verifySolution_accumulates:
  "verifySolution exclusionOk hypothesisOk m sol =
     ((\<forall>c \<in> set (exclusionConstraints m). exclusionOk c sol (segmentationHypotheses m))
        \<and> (\<forall>(i, h) \<in> set (segmentationHypotheses m). hypothesisOk h sol),
      ''Checking solution...''
        # map (\<lambda>c. violatedExclusion)
              (filter (\<lambda>c. \<not> exclusionOk c sol (segmentationHypotheses m)) (exclusionConstraints m))
        @ map (\<lambda>x. violatedConservation)
              (filter (\<lambda>(i, h). \<not> hypothesisOk h sol) (segmentationHypotheses m)))"
  by (simp add: verifySolution_def verifyExclusions_eq verifySegmentations_eq)

text \<open>With ``at most one member active'' and ``an active detection has an active
  appearance or disappearance'' as the two checks: the first and the third constraint and
  hypothesis 1 fail, and all three are written.\<close>

theorem verifySolution_accumulates_witness:
  "verifySolution
     (\<lambda>c sol segs. length (filter (\<lambda>i. case map_of segs i of
                                          Some h \<Rightarrow> isActive sol (detection h) | None \<Rightarrow> False) c) \<le> 1)
     (\<lambda>h sol. isActive sol (detection h) \<longrightarrow> isActive sol (appearance h) \<or> isActive sol (disappearance h))
     (exampleModel\<lparr> exclusionConstraints := [[1, 2], [2], [2, 1]] \<rparr>) [1, 1, 1, 1]
   = (False, [''Checking solution...'', violatedExclusion, violatedExclusion, violatedConservation])"
  using verifySolution_accumulates
    [of "\<lambda>c sol segs. length (filter (\<lambda>i. case map_of segs i of
                                          Some h \<Rightarrow> isActive sol (detection h) | None \<Rightarrow> False) c) \<le> 1"
        "\<lambda>h sol. isActive sol (detection h) \<longrightarrow> isActive sol (appearance h) \<or> isActive sol (disappearance h)"
        "exampleModel\<lparr> exclusionConstraints := [[1, 2], [2], [2, 1]] \<rparr>" "[1, 1, 1, 1]"]
  by (simp add: exampleModel_defs isActive_def solutionAt_def getOpenGMVariableId_def defaultVariable_def)

end
